theory Spec2Isabelle
  imports Complex_Main "HOL-Library.Char_ord" "HOL-Library.List_Lexorder" "HOL-Library.Sublist"
begin

section \<open>The conversion-ratio mapping of \<^verbatim>\<open>slip39/invoice/artifact.py\<close>\<close>

text \<open>
  \<^verbatim>\<open>conversions\<close> is a Python dict from a pair of currency symbols to a ratio or
  \<^verbatim>\<open>None\<close>.  A dict iterates in insertion order and the loops of
  \<^verbatim>\<open>conversions_remaining\<close> depend on that order, so the dict is an association
  list in insertion order with distinct keys.  Ratios are exact rationals (Python's
  \<^verbatim>\<open>Fraction\<close>); \<^verbatim>\<open>None\<close> is \<open>None\<close>.
\<close>

type_synonym symbol = string
type_synonym pair = "symbol \<times> symbol"
type_synonym ratio = "rat option"
type_synonym conversions = "(pair \<times> ratio) list"

datatype error =
    ZeroDivisionError
  | KeyError
  | TypeError
  | ValueError
  | RuntimeError string

datatype retval = RTrue | RFalse | RMsg string

datatype outcome = Returned retval | Raised error

text \<open>A dict has each key once.\<close>

definition wf_conversions :: "conversions \<Rightarrow> bool" where
  "wf_conversions c = distinct (map fst c)"

text \<open>\<^verbatim>\<open>conversions.get( k )\<close>: the value, \<^verbatim>\<open>None\<close> when the key is absent.\<close>

definition dict_get :: "conversions \<Rightarrow> pair \<Rightarrow> ratio" where
  "dict_get c k = (case map_of c k of None \<Rightarrow> None | Some v \<Rightarrow> v)"

text \<open>\<^verbatim>\<open>conversions[k] = v\<close>: an existing key keeps its place, a new key goes last.\<close>

fun dict_set :: "conversions \<Rightarrow> pair \<Rightarrow> ratio \<Rightarrow> conversions" where
  "dict_set [] k v = [(k, v)]"
| "dict_set ((k', v') # c) k v =
     (if k' = k then (k, v) # c else (k', v') # dict_set c k v)"

text \<open>\<^verbatim>\<open>conversions[k]\<close>: raises \<^verbatim>\<open>KeyError\<close> when the key is absent.\<close>

definition dict_item :: "conversions \<Rightarrow> pair \<Rightarrow> error + ratio" where
  "dict_item c k = (case map_of c k of None \<Rightarrow> Inl KeyError | Some v \<Rightarrow> Inr v)"

text \<open>Truth value of a ratio: \<^verbatim>\<open>None\<close> and \<^verbatim>\<open>0\<close> are falsy.\<close>

definition truthy :: "ratio \<Rightarrow> bool" where
  "truthy r = (case r of None \<Rightarrow> False | Some v \<Rightarrow> v \<noteq> 0)"

text \<open>Python's division raises on a zero divisor.\<close>

definition py_div :: "rat \<Rightarrow> rat \<Rightarrow> error + rat" where
  "py_div x y = (if y = 0 then Inl ZeroDivisionError else Inr (x / y))"

text \<open>
  A \<^verbatim>\<open>for\<close> loop whose body may raise: the loop stops at the first exception, and the
  state is the one the failing iteration started from (every body below raises before it
  assigns).
\<close>

fun for_each :: "('a \<Rightarrow> 's \<Rightarrow> error + 's) \<Rightarrow> 'a list \<Rightarrow> 's \<Rightarrow> error option \<times> 's" where
  "for_each f [] s = (None, s)"
| "for_each f (x # xs) s =
     (case f x s of Inl e \<Rightarrow> (Some e, s) | Inr s' \<Rightarrow> for_each f xs s')"

subsection \<open>First loop: inversion and single-hop composition\<close>

text \<open>
  The state of the first loop is the dict and the flag \<^verbatim>\<open>updated\<close>.

  The inner loop (lines 154--161) runs over a snapshot \<^verbatim>\<open>list( conversions.items() )\<close>
  and reads \<^verbatim>\<open>conversions.get( (a,b2) )\<close> from the live dict.
\<close>

fun compose_step :: "symbol \<Rightarrow> symbol \<Rightarrow> rat \<Rightarrow> pair \<times> ratio \<Rightarrow> conversions \<times> bool
    \<Rightarrow> conversions \<times> bool" where
  "compose_step a b r ((a2, b2), r2) (c, updated) =
     (case r2 of
        None \<Rightarrow> (c, updated)
      | Some v2 \<Rightarrow>
          if b = a2 \<and> a \<noteq> b2 \<and> dict_get c (a, b2) = None
          then (dict_set c (a, b2) (Some (r * v2)), True)
          else (c, updated))"

text \<open>
  Lines 148--151: \<^verbatim>\<open>if r and conversions.get( (b,a) ) is None: conversions[b,a] = 1/r\<close>.
\<close>

fun invert_step :: "pair \<times> ratio \<Rightarrow> conversions \<times> bool \<Rightarrow> error + conversions \<times> bool" where
  "invert_step ((a, b), r) (c, updated) =
     (case r of
        None \<Rightarrow> Inr (c, updated)
      | Some v \<Rightarrow>
          if v \<noteq> 0 \<and> dict_get c (b, a) = None
          then (case py_div 1 v of
                  Inl e \<Rightarrow> Inl e
                | Inr w \<Rightarrow> Inr (dict_set c (b, a) (Some w), True))
          else Inr (c, updated))"

text \<open>
  One iteration of the outer loop (lines 147--161): the inversion, then, unless the
  snapshot value \<^verbatim>\<open>r\<close> is \<^verbatim>\<open>None\<close>, the inner loop over a fresh snapshot.
\<close>

fun outer_step :: "pair \<times> ratio \<Rightarrow> conversions \<times> bool \<Rightarrow> error + conversions \<times> bool" where
  "outer_step ((a, b), r) s =
     (case invert_step ((a, b), r) s of
        Inl e \<Rightarrow> Inl e
      | Inr (c1, updated1) \<Rightarrow>
          (case r of
             None \<Rightarrow> Inr (c1, updated1)
           | Some v \<Rightarrow> Inr (fold (compose_step a b v) c1 (c1, updated1))))"

definition single_pass :: "conversions \<Rightarrow> error option \<times> conversions \<times> bool" where
  "single_pass c = for_each outer_step c (c, False)"

subsection \<open>Second loop: routes between the desired pairs\<close>

text \<open>
  Lines 166--180.  The three nested loops run over the live dict, which nothing changes
  before the first match; the first match in iteration order either raises or assigns and
  returns.  \<^verbatim>\<open>set( c2 ).intersection( set( c3 ))\<close> is the list of the distinct members
  of \<^verbatim>\<open>c2\<close> that occur in \<^verbatim>\<open>c3\<close>; it is truthy when it is not empty.
\<close>

fun first_some :: "('a \<Rightarrow> 'b option) \<Rightarrow> 'a list \<Rightarrow> 'b option" where
  "first_some f [] = None"
| "first_some f (x # xs) = (case f x of None \<Rightarrow> first_some f xs | Some y \<Rightarrow> Some y)"

definition in_pair :: "symbol \<Rightarrow> pair \<Rightarrow> bool" where
  "in_pair s p = (s = fst p \<or> s = snd p)"

definition intersection :: "pair \<Rightarrow> pair \<Rightarrow> symbol list" where
  "intersection c2 c3 = remdups (filter (\<lambda>s. in_pair s c3) [fst c2, snd c2])"

definition find_c3 :: "conversions \<Rightarrow> symbol \<Rightarrow> pair \<Rightarrow> symbol list option" where
  "find_c3 c b c2 =
     first_some (\<lambda>(c3, r3).
       if c2 \<noteq> c3 \<and> truthy r3 \<and> in_pair b c3 \<and> intersection c2 c3 \<noteq> []
       then Some (intersection c2 c3) else None) c"

definition find_c2 :: "conversions \<Rightarrow> symbol \<Rightarrow> symbol \<Rightarrow> symbol list option" where
  "find_c2 c a b =
     first_some (\<lambda>(c2, r2).
       if truthy r2 \<and> in_pair a c2 then find_c3 c b c2 else None) c"

definition find_route :: "conversions \<Rightarrow> (symbol \<times> symbol \<times> symbol list) option" where
  "find_route c =
     first_some (\<lambda>((a, b), r).
       if r \<noteq> None then None
       else (case find_c2 c a b of None \<Rightarrow> None | Some x_s \<Rightarrow> Some (a, b, x_s))) c"

text \<open>
  Lines 176--180, once a route is found.  \<^verbatim>\<open>x, = x_s\<close> raises \<^verbatim>\<open>ValueError\<close>
  unless the set has exactly one member; \<^verbatim>\<open>conversions[a,x]\<close> and
  \<^verbatim>\<open>conversions[b,x]\<close> raise \<^verbatim>\<open>KeyError\<close> on an absent key, and their product
  raises \<^verbatim>\<open>TypeError\<close> when one of them is \<^verbatim>\<open>None\<close>.  The product is assigned to
  \<^verbatim>\<open>conversions[a,b]\<close> before \<^verbatim>\<open>1 / conversions[a,b]\<close> is computed, so a zero
  product leaves the dict changed and raises \<^verbatim>\<open>ZeroDivisionError\<close>.  (The log line 178
  reads \<^verbatim>\<open>b2\<close>, a variable of the first loop; it is bound whenever a truthy ratio
  exists, which a route needs.)
\<close>

definition route_assign :: "conversions \<Rightarrow> symbol \<Rightarrow> symbol \<Rightarrow> symbol list \<Rightarrow> outcome \<times> conversions" where
  "route_assign c a b x_s =
     (case x_s of
        [x] \<Rightarrow>
          (case dict_item c (a, x) of
             Inl e \<Rightarrow> (Raised e, c)
           | Inr rax \<Rightarrow>
               (case dict_item c (b, x) of
                  Inl e \<Rightarrow> (Raised e, c)
                | Inr rbx \<Rightarrow>
                    (case (rax, rbx) of
                       (Some vax, Some vbx) \<Rightarrow>
                         (let c1 = dict_set c (a, b) (Some (vax * vbx)) in
                          case py_div 1 (vax * vbx) of
                            Inl e \<Rightarrow> (Raised e, c1)
                          | Inr w \<Rightarrow> (Returned RTrue, dict_set c1 (b, a) (Some w)))
                     | _ \<Rightarrow> (Raised TypeError, c))))
      | _ \<Rightarrow> (Raised ValueError, c))"

subsection \<open>The report of what remains\<close>

text \<open>
  Modelled from the spec: \<^verbatim>\<open>commas\<close> of \<^verbatim>\<open>slip39/util.py\<close>, which is not among the
  sources.  With \<^verbatim>\<open>final='and'\<close> it joins the words with a comma and a blank, the last
  one with \<^verbatim>\<open>and\<close>, as the message expected by \<^verbatim>\<open>artifact_test.py\<close> shows
  (\<^verbatim>\<open>BTC/ETH, BTC/USD and ETH/USD\<close>); nothing gives the empty string.
\<close>

fun commas :: "string list \<Rightarrow> string" where
  "commas [] = []"
| "commas [x] = x"
| "commas [x, y] = x @ '' and '' @ y"
| "commas (x # y # z # zs) = x @ '', '' @ commas (y # z # zs)"

text \<open>The f-string \<^verbatim>\<open>f'{a}/{b}'\<close>.\<close>

definition pair_name :: "pair \<Rightarrow> string" where
  "pair_name p = fst p @ ''/'' @ snd p"

definition remains :: "conversions \<Rightarrow> string" where
  "remains c = commas (sort (map (pair_name \<circ> fst) (filter (\<lambda>(p, r). r = None) c)))"

text \<open>\<^verbatim>\<open>r and r > 1\<close>: only the ratios above one are listed as resolved.\<close>

definition resolved :: "conversions \<Rightarrow> string" where
  "resolved c =
     commas (sort (map (pair_name \<circ> fst)
       (filter (\<lambda>(p, r). case r of None \<Rightarrow> False | Some v \<Rightarrow> v \<noteq> 0 \<and> v > 1) c)))"

definition failure_msg :: "conversions \<Rightarrow> string" where
  "failure_msg c = ''Failed to find ratio(s) for '' @ remains c @ '' via '' @ resolved c"

definition report :: "conversions \<Rightarrow> bool \<Rightarrow> outcome" where
  "report c verify =
     (if remains c = [] then Returned RFalse
      else if verify then Raised (RuntimeError (failure_msg c))
      else Returned (RMsg (failure_msg c)))"

subsection \<open>\<^verbatim>\<open>conversions_remaining\<close>\<close>

text \<open>
  The result is what the call returns or raises, and the dict as the call leaves it (the
  dict is updated in place, so the caller sees it after an exception too).
\<close>

definition conversions_remaining :: "conversions \<Rightarrow> bool \<Rightarrow> outcome \<times> conversions" where
  "conversions_remaining c verify =
     (case single_pass c of
        (Some e, c1, updated) \<Rightarrow> (Raised e, c1)
      | (None, c1, updated) \<Rightarrow>
          if updated then (Returned RTrue, c1)
          else (case find_route c1 of
                  Some (a, b, x_s) \<Rightarrow> route_assign c1 a b x_s
                | None \<Rightarrow> (report c1 verify, c1)))"

text \<open>
  The caller's loop \<^verbatim>\<open>while conversions_remaining( conversions, verify ): ...\<close>, as in
  \<^verbatim>\<open>artifact_test.py\<close>: it goes on while the call returns \<^verbatim>\<open>True\<close>.  (A returned
  message is truthy too; \<^verbatim>\<open>Invoice.__init__\<close> leaves its loop on a message, and the
  mapping does not change between two calls that return the message.)  The fuel bounds
  the number of calls; \<open>None\<close> means the fuel ran out.
\<close>

fun resolve :: "nat \<Rightarrow> bool \<Rightarrow> conversions \<Rightarrow> (outcome \<times> conversions) option" where
  "resolve 0 verify c = None"
| "resolve (Suc n) verify c =
     (case conversions_remaining c verify of
        (Returned RTrue, c') \<Rightarrow> resolve n verify c'
      | res \<Rightarrow> Some res)"

section \<open>Line items\<close>

text \<open>
  The dataclass \<^verbatim>\<open>Item\<close>.  Numbers are exact rationals; an absent \<^verbatim>\<open>tax\<close>,
  \<^verbatim>\<open>decimals\<close> or \<^verbatim>\<open>currency\<close> is \<open>None\<close>.
\<close>

record item =
  description :: string
  price :: rat
  units :: rat
  tax :: "rat option"
  decimals :: "int option"
  currency :: "string option"

text \<open>
  \<^verbatim>\<open>LineItem.net\<close>.  The percentage in the description is printed by
  \<^verbatim>\<open>f"{round( float( p ), 2 ):g}"\<close>; that float formatting is the parameter \<open>fmt\<close>.
  \<^verbatim>\<open>if self.tax\<close> is false for \<^verbatim>\<open>None\<close> and for zero; a tax of exactly one passes
  neither \<^verbatim>\<open>< 1\<close> nor \<^verbatim>\<open>> 1\<close>.
\<close>

definition net :: "(rat \<Rightarrow> string) \<Rightarrow> item \<Rightarrow> rat \<times> rat \<times> string" where
  "net fmt line =
     (let amount = units line * price line in
      case tax line of
        None \<Rightarrow> (amount, 0, ''no tax'')
      | Some t \<Rightarrow>
          if t = 0 then (amount, 0, ''no tax'')
          else if t < 1 then (amount + amount * t, amount * t, fmt (t * 100) @ ''% added'')
          else if t > 1 then (amount, amount - amount / t, fmt ((t - 1) * 100) @ ''% incl.'')
          else (amount, 0, ''no tax''))"

section \<open>Invoice rows\<close>

text \<open>
  \<^verbatim>\<open>round( x, ndigits )\<close> on a \<^verbatim>\<open>Fraction\<close>: to the nearest multiple of
  \<^verbatim>\<open>10 ** -ndigits\<close>, a tie to the even one.
\<close>

definition round_half_even :: "rat \<Rightarrow> int" where
  "round_half_even q =
     (let f = \<lfloor>q\<rfloor>; d = q - of_int f in
      if d < 1 / 2 then f
      else if d > 1 / 2 then f + 1
      else if even f then f else f + 1)"

definition py_round :: "rat \<Rightarrow> int \<Rightarrow> rat" where
  "py_round x ndigits =
     (let shift = 10 ^ nat \<bar>ndigits\<bar> in
      if ndigits > 0 then of_int (round_half_even (x * shift)) / shift
      else of_int (round_half_even (x / shift)) * shift)"

text \<open>
  What \<^verbatim>\<open>__iter__\<close> reads of the \<^verbatim>\<open>TokenInfo\<close> that the collaborator
  \<^verbatim>\<open>tokeninfo\<close> returns.  The collaborator is a parameter; it may raise.
\<close>

record token_info =
  ti_symbol :: symbol
  ti_decimals :: int

text \<open>
  What \<^verbatim>\<open>__iter__\<close> reads of an \<^verbatim>\<open>Invoice\<close>.  \<^verbatim>\<open>currencies\<close> is a set of
  symbols, listed here without repetition.
\<close>

record invoice =
  lines :: "item list"
  currencies :: "symbol list"
  inv_conversions :: conversions

text \<open>
  The tuple that \<^verbatim>\<open>__iter__\<close> yields; \<open>row_totals\<close> and \<open>row_tax_totals\<close> are the
  trailing \<^verbatim>\<open>tot[c]\<close> and \<^verbatim>\<open>tax[c]\<close> for \<^verbatim>\<open>c\<close> in
  \<^verbatim>\<open>sorted( self.currencies )\<close>.
\<close>

record row =
  row_i :: nat
  row_description :: string
  row_units :: rat
  row_price :: rat
  row_tax :: "rat option"
  row_taxinf :: string
  row_taxes :: rat
  row_net :: rat
  row_amount :: rat
  row_currency :: string
  row_symbol :: symbol
  row_decimals :: int
  row_curr :: token_info
  row_totals :: "rat list"
  row_tax_totals :: "rat list"

text \<open>
  The running sums \<^verbatim>\<open>tot\<close> and \<^verbatim>\<open>tax\<close> are dicts keyed by the invoice currencies,
  all starting at zero; they are functions here, read only at those keys.  The source
  starts them at the float \<^verbatim>\<open>0.\<close>; the model adds exactly.
\<close>

type_synonym running = "(symbol \<Rightarrow> rat) \<times> (symbol \<Rightarrow> rat)"

text \<open>
  Lines 473--479, for one currency \<^verbatim>\<open>c\<close>.  \<^verbatim>\<open>self.conversions[sym,c]\<close> raises
  \<^verbatim>\<open>KeyError\<close> when absent, and the product with \<^verbatim>\<open>None\<close> raises
  \<^verbatim>\<open>TypeError\<close>.
\<close>

definition add_line :: "conversions \<Rightarrow> symbol \<Rightarrow> rat \<Rightarrow> rat \<Rightarrow> symbol \<Rightarrow> running \<Rightarrow> error + running" where
  "add_line conv line_symbol line_amount line_taxes c s =
     (case s of (tot, taxs) \<Rightarrow>
        if line_symbol = c
        then Inr (tot(c := tot c + line_amount), taxs(c := taxs c + line_taxes))
        else (case dict_item conv (line_symbol, c) of
                Inl e \<Rightarrow> Inl e
              | Inr None \<Rightarrow> Inl TypeError
              | Inr (Some ratio) \<Rightarrow>
                  Inr (tot(c := tot c + line_amount * ratio),
                       taxs(c := taxs c + line_taxes * ratio))))"

text \<open>
  The body of the loop over the lines (lines 461--498): the row it yields and the sums
  after it, or the exception that ends the generator.  \<open>invoice_currency\<close> is the
  constant \<^verbatim>\<open>INVOICE_CURRENCY\<close> of \<^verbatim>\<open>slip39/defaults.py\<close>.
\<close>

definition line_row :: "(rat \<Rightarrow> string) \<Rightarrow> (string \<Rightarrow> error + token_info) \<Rightarrow> string \<Rightarrow> invoice
    \<Rightarrow> nat \<times> item \<Rightarrow> running \<Rightarrow> error + row \<times> running" where
  "line_row fmt tokeninfo invoice_currency invo il s =
     (case il of (i, line) \<Rightarrow>
      let line_currency =
            (case currency line of
               None \<Rightarrow> invoice_currency
             | Some cur \<Rightarrow> if cur = [] then invoice_currency else cur)
      in case net fmt line of (amount, taxes, line_taxinf) \<Rightarrow>
         (case tokeninfo line_currency of
            Inl e \<Rightarrow> Inl e
          | Inr line_curr \<Rightarrow>
              let line_symbol = ti_symbol line_curr;
                  line_decimals =
                    (case decimals line of
                       None \<Rightarrow> ti_decimals line_curr div 3
                     | Some d \<Rightarrow> d);
                  line_amount = py_round amount line_decimals;
                  line_taxes = py_round taxes line_decimals;
                  line_net = line_amount - line_taxes
              in case for_each (add_line (inv_conversions invo) line_symbol line_amount line_taxes)
                        (currencies invo) s of
                   (Some e, _) \<Rightarrow> Inl e
                 | (None, (tot, taxs)) \<Rightarrow>
                     Inr (\<lparr> row_i = i,
                            row_description = description line,
                            row_units = units line,
                            row_price = price line,
                            row_tax = tax line,
                            row_taxinf = line_taxinf,
                            row_taxes = line_taxes,
                            row_net = line_net,
                            row_amount = line_amount,
                            row_currency = line_currency,
                            row_symbol = line_symbol,
                            row_decimals = line_decimals,
                            row_curr = line_curr,
                            row_totals = map tot (sort (currencies invo)),
                            row_tax_totals = map taxs (sort (currencies invo)) \<rparr>,
                          (tot, taxs))))"

text \<open>
  The generator: the rows yielded, and the exception that ended it, if one did.
\<close>

fun iter_lines :: "(nat \<times> item \<Rightarrow> running \<Rightarrow> error + row \<times> running) \<Rightarrow> (nat \<times> item) list \<Rightarrow> running
    \<Rightarrow> row list \<times> error option" where
  "iter_lines body [] s = ([], None)"
| "iter_lines body (il # ils) s =
     (case body il s of
        Inl e \<Rightarrow> ([], Some e)
      | Inr (r, s') \<Rightarrow> (case iter_lines body ils s' of (rs, e) \<Rightarrow> (r # rs, e)))"

definition invoice_iter :: "(rat \<Rightarrow> string) \<Rightarrow> (string \<Rightarrow> error + token_info) \<Rightarrow> string \<Rightarrow> invoice
    \<Rightarrow> row list \<times> error option" where
  "invoice_iter fmt tokeninfo invoice_currency invo =
     iter_lines (line_row fmt tokeninfo invoice_currency invo)
       (enumerate 0 (lines invo)) (\<lambda>c. 0, \<lambda>c. 0)"

text \<open>
  The running total and the running tax of a row for the currency \<open>c\<close>: the entry of
  \<open>row_totals\<close> (of \<open>row_tax_totals\<close>) at the place of \<open>c\<close> among the sorted currencies.
\<close>

definition total_of :: "invoice \<Rightarrow> row \<Rightarrow> symbol \<Rightarrow> rat option" where
  "total_of invo r c = map_of (zip (sort (currencies invo)) (row_totals r)) c"

definition tax_total_of :: "invoice \<Rightarrow> row \<Rightarrow> symbol \<Rightarrow> rat option" where
  "tax_total_of invo r c = map_of (zip (sort (currencies invo)) (row_tax_totals r)) c"

section \<open>Pages\<close>





section \<open>Relations used to state the properties\<close>

text \<open>
  \<open>fills c c'\<close>: going from \<open>c\<close> to \<open>c'\<close>, every key keeps its entry, or had no known
  ratio (absent, or \<^verbatim>\<open>None\<close>) and is present afterwards.
\<close>

definition fills :: "conversions \<Rightarrow> conversions \<Rightarrow> bool" where
  "fills c c' = (\<forall>k. map_of c' k = map_of c k \<or> (dict_get c k = None \<and> map_of c' k \<noteq> None))"

text \<open>
  \<open>settled c\<close>: the first loop finds nothing to do on \<open>c\<close>: every truthy ratio has a
  known reverse, and every two known ratios \<open>(a,b)\<close>, \<open>(b,b2)\<close> with \<open>a \<noteq> b2\<close> have a
  known \<open>(a,b2)\<close>.
\<close>

definition settled :: "conversions \<Rightarrow> bool" where
  "settled c =
     (\<forall>((a, b), r) \<in> set c.
        (truthy r \<longrightarrow> dict_get c (b, a) \<noteq> None) \<and>
        (r \<noteq> None \<longrightarrow>
           (\<forall>((a2, b2), r2) \<in> set c.
              r2 \<noteq> None \<longrightarrow> b = a2 \<longrightarrow> a \<noteq> b2 \<longrightarrow> dict_get c (a, b2) \<noteq> None)))"

text \<open>What the two steps of the first loop test, read as "nothing to do here".\<close>

definition compose_idle :: "conversions \<Rightarrow> symbol \<Rightarrow> symbol \<Rightarrow> pair \<times> ratio \<Rightarrow> bool" where
  "compose_idle c a b e =
     (case e of ((a2, b2), r2) \<Rightarrow>
        r2 \<noteq> None \<longrightarrow> b = a2 \<longrightarrow> a \<noteq> b2 \<longrightarrow> dict_get c (a, b2) \<noteq> None)"

definition outer_idle :: "conversions \<Rightarrow> pair \<times> ratio \<Rightarrow> bool" where
  "outer_idle c e =
     (case e of ((a, b), r) \<Rightarrow>
        (truthy r \<longrightarrow> dict_get c (b, a) \<noteq> None) \<and>
        (r \<noteq> None \<longrightarrow> (\<forall>e2 \<in> set c. compose_idle c a b e2)))"

text \<open>Example mappings, used to run the definitions.\<close>

definition ex_doge :: conversions where
  "ex_doge = [((''ETH'', ''USD''), Some (123456 / 100)),
              ((''BTC'', ''USD''), Some (2345678 / 100)),
              ((''DOGE'', ''USD''), None)]"

definition ex_zero :: conversions where
  "ex_zero = [((''WEENUS'', ''ETH''), Some 0),
              ((''ETH'', ''USD''), Some 1500),
              ((''WEENUS'', ''USD''), None)]"

definition ex_self :: conversions where
  "ex_self = [((''A'', ''A''), None), ((''A'', ''X''), Some 2), ((''X'', ''A''), Some (1 / 2))]"

definition ex_one :: conversions where
  "ex_one = [((''ETH'', ''USD''), Some 2)]"

definition ex_pair :: conversions where
  "ex_pair = [((''ETH'', ''USD''), Some 2), ((''USD'', ''ETH''), Some (1 / 2))]"

definition ex_doge_resolved :: conversions where
  "ex_doge_resolved =
     [((''ETH'', ''USD''), Some (30864 / 25)),
      ((''BTC'', ''USD''), Some (1172839 / 50)),
      ((''DOGE'', ''USD''), None),
      ((''USD'', ''ETH''), Some (25 / 30864)),
      ((''USD'', ''BTC''), Some (50 / 1172839)),
      ((''BTC'', ''ETH''), Some (1172839 / 61728)),
      ((''ETH'', ''BTC''), Some (61728 / 1172839))]"

definition ex_unit :: conversions where
  "ex_unit = [((''A'', ''B''), Some 1), ((''B'', ''A''), Some 1), ((''C'', ''D''), None)]"








definition ex_race :: conversions where
  "ex_race = [((''C'', ''A''), Some 2), ((''A'', ''B''), Some 0), ((''B'', ''C''), Some 5),
              ((''A'', ''C''), None)]"



text \<open>
  \<open>worthless a c\<close>: every known ratio of a pair with the symbol \<open>a\<close> is zero.
\<close>

definition worthless :: "symbol \<Rightarrow> conversions \<Rightarrow> bool" where
  "worthless a c = list_all (\<lambda>(k, r). r = None \<or> r = Some 0 \<or> \<not> in_pair a k) c"

text \<open>
  What a line of \<open>x\<close> units of the currency \<open>line_symbol\<close> adds to the running sum of
  the currency \<open>c\<close>: \<open>x\<close> itself when the two are the same, otherwise \<open>x\<close> times the
  ratio \<^verbatim>\<open>conversions[line_symbol,c]\<close>.
\<close>

definition contribution :: "conversions \<Rightarrow> symbol \<Rightarrow> symbol \<Rightarrow> rat \<Rightarrow> rat" where
  "contribution conv line_symbol c x =
     (if line_symbol = c then x
      else case dict_get conv (line_symbol, c) of None \<Rightarrow> 0 | Some ratio \<Rightarrow> x * ratio)"

text \<open>An invoice of two lines in two currencies, and a token lookup with six decimals.\<close>

definition ex_tokeninfo :: "string \<Rightarrow> error + token_info" where
  "ex_tokeninfo name = Inr \<lparr> ti_symbol = name, ti_decimals = 6 \<rparr>"

definition ex_invoice :: invoice where
  "ex_invoice =
     \<lparr> lines = [\<lparr> description = ''Widgets'', price = 1, units = 100, tax = Some (5 / 100),
                  decimals = None, currency = None \<rparr>,
                \<lparr> description = ''Hosting'', price = 2, units = 3, tax = None,
                  decimals = Some 4, currency = Some ''ETH'' \<rparr>],
       currencies = [''USD'', ''ETH''],
       inv_conversions = [((''ETH'', ''USD''), Some 2), ((''USD'', ''ETH''), Some (1 / 2))] \<rparr>"

text \<open>A line item of 100 units at price 1, used to run \<open>net\<close> on concrete taxes.\<close>

definition ex_item :: "rat option \<Rightarrow> item" where
  "ex_item t = \<lparr> description = ''Widgets'', price = 1, units = 100, tax = t,
                 decimals = None, currency = None \<rparr>"

section \<open>Properties of \<^verbatim>\<open>LineItem.net\<close>\<close>

lemma added_is_not_no_tax: "xs @ ''% added'' \<noteq> ''no tax''"
proof
  assume "xs @ ''% added'' = ''no tax''"
  then have "last (xs @ ''% added'') = last ''no tax''" by simp
  then show False by simp
qed

lemma incl_is_not_no_tax: "xs @ ''% incl.'' \<noteq> ''no tax''"
proof
  assume "xs @ ''% incl.'' = ''no tax''"
  then have "last (xs @ ''% incl.'') = last ''no tax''" by simp
  then show False by simp
qed

text \<open>
  C2.  \<^verbatim>\<open>net()\<close> returns (amount, taxes, description) over the base amount
  \<open>units * price\<close>: with no tax or a tax of zero, the base, taxes 0 and "no tax"; with
  \<open>0 < tax < 1\<close>, taxes \<open>base * tax\<close>, amount \<open>base + taxes\<close> and the percentage
  "added"; with \<open>tax > 1\<close>, the base unchanged, taxes \<open>base - base / tax\<close> and the
  percentage "incl.".
\<close>

theorem net_postcondition:
  "(tax line = None \<or> tax line = Some 0 \<longrightarrow>
      net fmt line = (units line * price line, 0, ''no tax'')) \<and>
   (tax line = Some t \<and> 0 < t \<and> t < 1 \<longrightarrow>
      net fmt line = (units line * price line + units line * price line * t,
                      units line * price line * t, fmt (t * 100) @ ''% added'')) \<and>
   (tax line = Some t \<and> 1 < t \<longrightarrow>
      net fmt line = (units line * price line,
                      units line * price line - units line * price line / t,
                      fmt ((t - 1) * 100) @ ''% incl.''))"
  by (auto simp: net_def Let_def)

text \<open>
  The concrete cases of C2: tax 0.05 on 100 gives (105, 5, added); tax 1.05 on 100 gives
  (100, 100 - 100/1.05, incl.), and \<open>100 - 100/1.05 = 100/21\<close>, about 4.7619.
\<close>

theorem net_postcondition_witness:
  "net (\<lambda>p. ''5'') (ex_item None) = (100, 0, ''no tax'') \<and>
   net (\<lambda>p. ''5'') (ex_item (Some 0)) = (100, 0, ''no tax'') \<and>
   net (\<lambda>p. ''5'') (ex_item (Some (5 / 100))) = (105, 5, ''5% added'') \<and>
   net (\<lambda>p. ''5'') (ex_item (Some (105 / 100))) = (100, 100 - 100 / (105 / 100), ''5% incl.'')"
  using net_postcondition [where line = "ex_item None" and fmt = "\<lambda>p. ''5''" and t = 0]
    net_postcondition [where line = "ex_item (Some 0)" and fmt = "\<lambda>p. ''5''" and t = 0]
    net_postcondition [where line = "ex_item (Some (5 / 100))" and fmt = "\<lambda>p. ''5''" and t = "5 / 100"]
    net_postcondition [where line = "ex_item (Some (105 / 100))" and fmt = "\<lambda>p. ''5''" and t = "105 / 100"]
  by (simp add: ex_item_def)

text \<open>
  C3 says that a tax of exactly 1 does not give the no-tax result.  In the source a tax
  of 1 passes \<^verbatim>\<open>if self.tax\<close> and then neither \<^verbatim>\<open>< 1\<close> nor \<^verbatim>\<open>> 1\<close>, so the
  initial \<^verbatim>\<open>taxes = 0\<close> and \<^verbatim>\<open>'no tax'\<close> are returned.
\<close>

theorem net_tax_one_counterexample:
  "net (\<lambda>p. ''0'') (ex_item (Some 1)) = (100, 0, ''no tax'')"
  by (simp add: net_def ex_item_def)

text \<open>
  C3, amended.  \<^verbatim>\<open>net()\<close> returns the no-tax result (the base amount, taxes 0,
  "no tax") exactly when the tax is absent, 0 or 1.
\<close>

theorem net_no_tax_iff:
  "net fmt line = (units line * price line, 0, ''no tax'') \<longleftrightarrow>
   (tax line = None \<or> tax line = Some 0 \<or> tax line = Some 1)"
  by (auto simp: net_def Let_def added_is_not_no_tax incl_is_not_no_tax
      split: option.splits if_splits)

theorem net_no_tax_iff_witness:
  "net (\<lambda>p. ''0'') (ex_item (Some 1)) = (units (ex_item (Some 1)) * price (ex_item (Some 1)), 0, ''no tax'') \<and>
   net (\<lambda>p. ''5'') (ex_item (Some (1 / 20))) \<noteq> (units (ex_item (Some (1 / 20))) * price (ex_item (Some (1 / 20))), 0, ''no tax'')"
  using net_no_tax_iff [of "\<lambda>p. ''0''" "ex_item (Some 1)"]
    net_no_tax_iff [of "\<lambda>p. ''5''" "ex_item (Some (1 / 20))"]
  by (simp add: ex_item_def)

section \<open>Properties of \<^verbatim>\<open>Invoice.pages\<close>\<close>







section \<open>Properties of \<^verbatim>\<open>conversions_remaining\<close>\<close>

subsection \<open>The dict operations\<close>

lemma map_of_dict_set: "map_of (dict_set c k v) = (map_of c)(k \<mapsto> v)"
  by (induction c) (auto simp: fun_eq_iff)

lemma dict_get_dict_set:
  "dict_get (dict_set c k v) k' = (if k' = k then v else dict_get c k')"
  by (simp add: dict_get_def map_of_dict_set)

lemma keys_dict_set: "fst ` set (dict_set c k v) = insert k (fst ` set c)"
  by (simp add: dom_map_of_conv_image_fst [symmetric] map_of_dict_set)

lemma wf_dict_set: "wf_conversions c \<Longrightarrow> wf_conversions (dict_set c k v)"
proof (induction c)
  case Nil
  then show ?case by (simp add: wf_conversions_def)
next
  case (Cons e c)
  obtain k' v' where e: "e = (k', v')" by (cases e)
  from Cons.prems have d: "k' \<notin> fst ` set c" and w: "wf_conversions c"
    by (auto simp: wf_conversions_def e)
  show ?case
  proof (cases "k' = k")
    case True
    with Cons.prems show ?thesis by (simp add: wf_conversions_def e)
  next
    case False
    from Cons.IH [OF w] have "distinct (map fst (dict_set c k v))"
      by (simp add: wf_conversions_def)
    moreover from d False have "k' \<notin> fst ` set (dict_set c k v)"
      by (simp add: keys_dict_set)
    ultimately show ?thesis using False by (simp add: wf_conversions_def e)
  qed
qed

lemma wf_entry: "wf_conversions c \<Longrightarrow> (k, v) \<in> set c \<Longrightarrow> map_of c k = Some v"
  by (simp add: wf_conversions_def)

lemma wf_entry_get: "wf_conversions c \<Longrightarrow> (k, v) \<in> set c \<Longrightarrow> dict_get c k = v"
  by (simp add: dict_get_def wf_entry)

lemma fills_refl: "fills c c"
  by (simp add: fills_def)

lemma fills_trans: "fills c c' \<Longrightarrow> fills c' c'' \<Longrightarrow> fills c c''"
  unfolding fills_def dict_get_def
  by (metis option.simps(4))

lemma fills_dict_set: "dict_get c k = None \<Longrightarrow> fills c (dict_set c k (Some v))"
  by (auto simp: fills_def map_of_dict_set)

lemma fills_known: "fills c c' \<Longrightarrow> map_of c k = Some (Some r) \<Longrightarrow> map_of c' k = Some (Some r)"
  unfolding fills_def dict_get_def by (metis option.simps(5) option.distinct(1))

lemma fills_get: "fills c c' \<Longrightarrow> dict_get c k \<noteq> None \<Longrightarrow> dict_get c' k = dict_get c k"
  unfolding fills_def dict_get_def by metis

lemma compose_step_fills: "fills c (fst (compose_step a b r e (c, u)))"
proof -
  obtain a2 b2 r2 where e: "e = ((a2, b2), r2)" by (metis surj_pair)
  show ?thesis
    by (simp add: e fills_refl fills_dict_set split: option.splits)
qed

lemma fold_compose_fills: "fills c (fst (fold (compose_step a b r) xs (c, u)))"
proof (induction xs arbitrary: c u)
  case Nil
  show ?case by (simp add: fills_refl)
next
  case (Cons e xs)
  obtain c1 u1 where s1: "compose_step a b r e (c, u) = (c1, u1)" by (metis surj_pair)
  have "fills c c1" using compose_step_fills [of c a b r e u] by (simp add: s1)
  moreover have "fills c1 (fst (fold (compose_step a b r) xs (c1, u1)))" by (rule Cons.IH)
  ultimately show ?case by (simp add: s1) (rule fills_trans)
qed

lemma invert_step_ok:
  "\<exists>c1 u1. invert_step e (c, u) = Inr (c1, u1) \<and> fills c c1 \<and> (u \<longrightarrow> u1)"
proof -
  obtain a b r where e: "e = ((a, b), r)" by (metis surj_pair)
  show ?thesis
    by (auto simp: e py_div_def fills_refl fills_dict_set split: option.splits)
qed

lemma outer_step_ok:
  "\<exists>c1 u1. outer_step e (c, u) = Inr (c1, u1) \<and> fills c c1"
proof -
  obtain a b r where e: "e = ((a, b), r)" by (metis surj_pair)
  obtain c1 u1 where i: "invert_step ((a, b), r) (c, u) = Inr (c1, u1)" and f: "fills c c1"
    using invert_step_ok [of "((a, b), r)" c u] by blast
  show ?thesis
  proof (cases r)
    case None
    with i f show ?thesis by (simp add: e)
  next
    case (Some v)
    obtain c2 u2 where s2: "fold (compose_step a b v) c1 (c1, u1) = (c2, u2)" by (metis surj_pair)
    have "fills c1 c2" using fold_compose_fills [of c1 a b v c1 u1] by (simp add: s2)
    with f have "fills c c2" by (rule fills_trans)
    with i Some s2 show ?thesis by (simp add: e)
  qed
qed

lemma for_each_outer_ok:
  "\<exists>c1 u1. for_each outer_step xs (c, u) = (None, c1, u1) \<and> fills c c1"
proof (induction xs arbitrary: c u)
  case Nil
  show ?case by (simp add: fills_refl)
next
  case (Cons e xs)
  obtain c1 u1 where o: "outer_step e (c, u) = Inr (c1, u1)" and f: "fills c c1"
    using outer_step_ok [of e c u] by blast
  obtain c2 u2 where r: "for_each outer_step xs (c1, u1) = (None, c2, u2)" and f2: "fills c1 c2"
    using Cons.IH [of c1 u1] by blast
  from f f2 have "fills c c2" by (rule fills_trans)
  with o r show ?case by simp
qed

lemma single_pass_ok: "\<exists>c1 u1. single_pass c = (None, c1, u1) \<and> fills c c1"
  unfolding single_pass_def by (rule for_each_outer_ok)


lemma settled_iff: "settled c \<longleftrightarrow> (\<forall>e \<in> set c. outer_idle c e)"
  unfolding settled_def outer_idle_def compose_idle_def by (auto split: prod.splits)

lemma compose_step_flag:
  "compose_step a b r e (c, u) = (c', False) \<longleftrightarrow> (\<not> u \<and> c' = c \<and> compose_idle c a b e)"
proof -
  obtain a2 b2 r2 where e: "e = ((a2, b2), r2)" by (metis surj_pair)
  show ?thesis by (auto simp: e compose_idle_def split: option.splits)
qed

lemma fold_compose_flag:
  "fold (compose_step a b r) xs (c, u) = (c', False) \<longleftrightarrow>
   (\<not> u \<and> c' = c \<and> (\<forall>e \<in> set xs. compose_idle c a b e))"
proof (induction xs arbitrary: c u)
  case Nil
  show ?case by auto
next
  case (Cons e xs)
  obtain c1 u1 where s1: "compose_step a b r e (c, u) = (c1, u1)" by (metis surj_pair)
  show ?case
  proof (cases u1)
    case True
    with s1 have "\<not> (\<not> u \<and> c1 = c \<and> compose_idle c a b e)"
      using compose_step_flag [of a b r e c u c1] by simp
    moreover from True have "fold (compose_step a b r) xs (c1, u1) \<noteq> (c', False)"
      using Cons.IH [of c1 u1] by simp
    moreover have "c1 \<noteq> c \<longrightarrow> u1" using s1 compose_step_flag [of a b r e c u c1] by auto
    ultimately show ?thesis using s1 True
      by (metis (no_types, lifting) compose_step_flag fold_simps(2) list.set_intros(1))
  next
    case False
    with s1 have f: "\<not> u \<and> c1 = c \<and> compose_idle c a b e"
      using compose_step_flag [of a b r e c u c1] by simp
    with s1 False Cons.IH [of c u] show ?thesis by auto
  qed
qed

lemma invert_step_flag:
  "invert_step ((a, b), r) (c, u) = Inr (c', False) \<longleftrightarrow>
   (\<not> u \<and> c' = c \<and> (truthy r \<longrightarrow> dict_get c (b, a) \<noteq> None))"
  by (auto simp: py_div_def truthy_def split: option.splits)

lemma outer_step_flag:
  "outer_step e (c, u) = Inr (c', False) \<longleftrightarrow> (\<not> u \<and> c' = c \<and> outer_idle c e)"
proof -
  obtain a b r where e: "e = ((a, b), r)" by (metis surj_pair)
  obtain c1 u1 where i: "invert_step ((a, b), r) (c, u) = Inr (c1, u1)"
    using invert_step_ok [of "((a, b), r)" c u] by blast
  show ?thesis
  proof (cases r)
    case None
    with i invert_step_flag [of a b r c u c'] show ?thesis
      by (auto simp: e outer_idle_def truthy_def)
  next
    case (Some v)
    have "outer_step e (c, u) = Inr (fold (compose_step a b v) c1 (c1, u1))"
      using i Some by (simp add: e)
    then have "outer_step e (c, u) = Inr (c', False) \<longleftrightarrow>
        (\<not> u1 \<and> c' = c1 \<and> (\<forall>e2 \<in> set c1. compose_idle c1 a b e2))"
      using fold_compose_flag [of a b v c1 c1 u1 c'] by simp
    also have "\<dots> \<longleftrightarrow> (\<not> u \<and> c' = c \<and> outer_idle c e)"
    proof (cases u1)
      case True
      with i invert_step_flag [of a b r c u c1] have "\<not> (\<not> u \<and> (truthy r \<longrightarrow> dict_get c (b, a) \<noteq> None))"
        using invert_step_ok [of "((a, b), r)" c u]
        by (auto simp: py_div_def truthy_def split: option.splits if_splits)
      with True show ?thesis by (auto simp: e outer_idle_def)
    next
      case False
      with i invert_step_flag [of a b r c u c1]
      have "\<not> u" "c1 = c" "truthy r \<longrightarrow> dict_get c (b, a) \<noteq> None" by auto
      with False Some show ?thesis by (auto simp: e outer_idle_def)
    qed
    finally show ?thesis .
  qed
qed

lemma for_each_outer_flag:
  "for_each outer_step xs (c, u) = (eo, c', False) \<longleftrightarrow>
   (eo = None \<and> \<not> u \<and> c' = c \<and> (\<forall>e \<in> set xs. outer_idle c e))"
proof (induction xs arbitrary: c u)
  case Nil
  show ?case by auto
next
  case (Cons e xs)
  obtain c1 u1 where o: "outer_step e (c, u) = Inr (c1, u1)"
    using outer_step_ok [of e c u] by blast
  show ?case
  proof (cases u1)
    case True
    have "for_each outer_step xs (c1, u1) \<noteq> (eo, c', False)"
      using Cons.IH [of c1 u1] True by simp
    moreover have "\<not> (\<not> u \<and> outer_idle c e)"
      using o True outer_step_flag [of e c u c] by auto
    ultimately show ?thesis using o by auto
  next
    case False
    with o outer_step_flag [of e c u c1] have "\<not> u" "c1 = c" "outer_idle c e" by auto
    with o False Cons.IH [of c u] show ?thesis by auto
  qed
qed

lemma single_pass_idle:
  "single_pass c = (eo, c', False) \<longleftrightarrow> (eo = None \<and> c' = c \<and> settled c)"
  unfolding single_pass_def settled_iff by (simp add: for_each_outer_flag)


subsection \<open>Well-formedness is kept\<close>

lemma compose_step_wf: "wf_conversions c \<Longrightarrow> wf_conversions (fst (compose_step a b r e (c, u)))"
proof -
  assume w: "wf_conversions c"
  obtain a2 b2 r2 where e: "e = ((a2, b2), r2)" by (metis surj_pair)
  from w show ?thesis by (simp add: e wf_dict_set split: option.splits)
qed

lemma fold_compose_wf:
  "wf_conversions c \<Longrightarrow> wf_conversions (fst (fold (compose_step a b r) xs (c, u)))"
proof (induction xs arbitrary: c u)
  case Nil
  then show ?case by simp
next
  case (Cons e xs)
  obtain c1 u1 where s1: "compose_step a b r e (c, u) = (c1, u1)" by (metis surj_pair)
  have "wf_conversions c1" using compose_step_wf [OF Cons.prems, of a b r e u] by (simp add: s1)
  then show ?case using Cons.IH [of c1 u1] by (simp add: s1)
qed

lemma invert_step_wf:
  "wf_conversions c \<Longrightarrow> invert_step e (c, u) = Inr (c1, u1) \<Longrightarrow> wf_conversions c1"
proof -
  assume w: "wf_conversions c" and i: "invert_step e (c, u) = Inr (c1, u1)"
  obtain a b r where e: "e = ((a, b), r)" by (metis surj_pair)
  from w i show ?thesis
    by (auto simp: e py_div_def wf_dict_set split: option.splits if_splits)
qed

lemma outer_step_wf:
  "wf_conversions c \<Longrightarrow> outer_step e (c, u) = Inr (c2, u2) \<Longrightarrow> wf_conversions c2"
proof -
  assume w: "wf_conversions c" and o: "outer_step e (c, u) = Inr (c2, u2)"
  obtain a b r where e: "e = ((a, b), r)" by (metis surj_pair)
  obtain c1 u1 where i: "invert_step ((a, b), r) (c, u) = Inr (c1, u1)"
    using invert_step_ok [of "((a, b), r)" c u] by blast
  have w1: "wf_conversions c1" using invert_step_wf [OF w i] .
  show ?thesis
  proof (cases r)
    case None
    with o i w1 show ?thesis by (simp add: e)
  next
    case (Some v)
    with o i have "(c2, u2) = fold (compose_step a b v) c1 (c1, u1)" by (simp add: e)
    then have "c2 = fst (fold (compose_step a b v) c1 (c1, u1))" by (metis fst_conv)
    with w1 show ?thesis by (simp add: fold_compose_wf)
  qed
qed

lemma for_each_outer_wf:
  "wf_conversions c \<Longrightarrow> for_each outer_step xs (c, u) = (eo, c', u') \<Longrightarrow> wf_conversions c'"
proof (induction xs arbitrary: c u)
  case Nil
  then show ?case by simp
next
  case (Cons e xs)
  obtain c1 u1 where o: "outer_step e (c, u) = Inr (c1, u1)"
    using outer_step_ok [of e c u] by blast
  have "wf_conversions c1" using outer_step_wf [OF Cons.prems(1) o] .
  moreover from Cons.prems(2) o have "for_each outer_step xs (c1, u1) = (eo, c', u')" by simp
  ultimately show ?case by (rule Cons.IH)
qed

lemma single_pass_wf:
  "wf_conversions c \<Longrightarrow> single_pass c = (eo, c', u') \<Longrightarrow> wf_conversions c'"
  unfolding single_pass_def by (rule for_each_outer_wf)

subsection \<open>The second loop after an idle first loop\<close>

lemma first_some_SomeD: "first_some f xs = Some y \<Longrightarrow> \<exists>x \<in> set xs. f x = Some y"
  by (induction xs) (auto split: option.splits)

lemma first_some_None: "first_some f xs = None \<longleftrightarrow> (\<forall>x \<in> set xs. f x = None)"
  by (induction xs) (auto split: option.splits)

lemma find_c3_SomeD:
  assumes "find_c3 c b c2 = Some x_s"
  shows "\<exists>c3 r3. (c3, r3) \<in> set c \<and> c2 \<noteq> c3 \<and> truthy r3 \<and> in_pair b c3 \<and>
           x_s = intersection c2 c3 \<and> x_s \<noteq> []"
proof -
  let ?f = "\<lambda>(c3, r3). if c2 \<noteq> c3 \<and> truthy r3 \<and> in_pair b c3 \<and> intersection c2 c3 \<noteq> []
       then Some (intersection c2 c3) else None"
  from assms have "first_some ?f c = Some x_s" by (simp add: find_c3_def)
  then obtain e3 where e3: "e3 \<in> set c" and fe3: "?f e3 = Some x_s"
    using first_some_SomeD [of ?f c x_s] by auto
  obtain c3 r3 where e3': "e3 = (c3, r3)" by (cases e3)
  from fe3 have t3: "c2 \<noteq> c3 \<and> truthy r3 \<and> in_pair b c3 \<and> x_s = intersection c2 c3 \<and> x_s \<noteq> []"
    by (auto simp: e3' split: if_splits)
  from e3 e3' have "(c3, r3) \<in> set c" by simp
  with t3 show ?thesis by (intro exI [of _ c3] exI [of _ r3]) auto
qed

lemma find_c2_SomeD:
  assumes "find_c2 c a b = Some x_s"
  shows "\<exists>c2 r2. (c2, r2) \<in> set c \<and> truthy r2 \<and> in_pair a c2 \<and> find_c3 c b c2 = Some x_s"
proof -
  let ?f = "\<lambda>(c2, r2). if truthy r2 \<and> in_pair a c2 then find_c3 c b c2 else None"
  from assms have "first_some ?f c = Some x_s" by (simp add: find_c2_def)
  then obtain e2 where e2: "e2 \<in> set c" and fe2: "?f e2 = Some x_s"
    using first_some_SomeD [of ?f c x_s] by auto
  obtain c2 r2 where e2': "e2 = (c2, r2)" by (cases e2)
  from fe2 have t2: "truthy r2 \<and> in_pair a c2 \<and> find_c3 c b c2 = Some x_s"
    by (auto simp: e2' split: if_splits)
  from e2 e2' have "(c2, r2) \<in> set c" by simp
  with t2 show ?thesis by (intro exI [of _ c2] exI [of _ r2]) simp
qed

lemma find_route_SomeD:
  assumes "find_route c = Some (a, b, x_s)"
  shows "((a, b), None) \<in> set c \<and> find_c2 c a b = Some x_s"
proof -
  let ?f = "\<lambda>((a', b'), r). if r \<noteq> None then None
       else (case find_c2 c a' b' of None \<Rightarrow> None | Some x_s \<Rightarrow> Some (a', b', x_s))"
  from assms have "first_some ?f c = Some (a, b, x_s)" by (simp add: find_route_def)
  then obtain e where e: "e \<in> set c" and fe: "?f e = Some (a, b, x_s)"
    using first_some_SomeD [of ?f c "(a, b, x_s)"] by auto
  obtain a' b' r where e': "e = ((a', b'), r)" by (metis surj_pair)
  from fe have "r = None \<and> find_c2 c a b = Some x_s \<and> a' = a \<and> b' = b"
    by (auto simp: e' split: if_splits option.splits)
  with e e' show ?thesis by simp
qed

lemma find_route_None:
  "(\<forall>e \<in> set c. snd e \<noteq> None) \<Longrightarrow> find_route c = None"
  unfolding find_route_def first_some_None by (auto split: prod.splits)

lemma dict_get_entry: "dict_get c k = Some v \<Longrightarrow> (k, Some v) \<in> set c"
  unfolding dict_get_def by (auto split: option.splits dest: map_of_SomeD)

lemma settled_reverse:
  assumes "wf_conversions c" "settled c" "((p, q), r) \<in> set c" "truthy r"
  shows "dict_get c (p, q) \<noteq> None \<and> dict_get c (q, p) \<noteq> None"
proof -
  from assms(1,3) have "dict_get c (p, q) = r" by (rule wf_entry_get)
  moreover from assms(4) have "r \<noteq> None" by (cases r) (simp_all add: truthy_def)
  moreover from assms(2,3,4) have "dict_get c (q, p) \<noteq> None"
    unfolding settled_def by fastforce
  ultimately show ?thesis by simp
qed

lemma settled_compose:
  assumes "settled c" "dict_get c (a, x) \<noteq> None" "dict_get c (x, b) \<noteq> None" "a \<noteq> b"
  shows "dict_get c (a, b) \<noteq> None"
proof -
  from assms(2) obtain v where "dict_get c (a, x) = Some v" by auto
  then have e1: "((a, x), Some v) \<in> set c" by (rule dict_get_entry)
  from assms(3) obtain v2 where "dict_get c (x, b) = Some v2" by auto
  then have e2: "((x, b), Some v2) \<in> set c" by (rule dict_get_entry)
  from assms(1) e1 have "\<forall>((a2, b2), r2) \<in> set c.
      r2 \<noteq> None \<longrightarrow> x = a2 \<longrightarrow> a \<noteq> b2 \<longrightarrow> dict_get c (a, b2) \<noteq> None"
    unfolding settled_def by fastforce
  with e2 assms(4) show ?thesis by fastforce
qed

lemma intersection_member:
  "s \<in> set (intersection c2 c3) \<longleftrightarrow> in_pair s c2 \<and> in_pair s c3"
  by (auto simp: intersection_def in_pair_def)

lemma route_assign_not_single:
  "(\<forall>x. x_s \<noteq> [x]) \<Longrightarrow> route_assign c a b x_s = (Raised ValueError, c)"
  by (cases x_s; cases "tl x_s") (auto simp: route_assign_def split: list.splits)

lemma route_assign_unknown:
  "map_of c (a, x) = Some None \<Longrightarrow> map_of c (b, x) \<noteq> None \<Longrightarrow>
   route_assign c a b [x] = (Raised TypeError, c)"
  by (auto simp: route_assign_def dict_item_def split: option.splits)

lemma in_pair_two:
  "in_pair a p \<Longrightarrow> in_pair b p \<Longrightarrow> a \<noteq> b \<Longrightarrow> p = (a, b) \<or> p = (b, a)"
  by (cases p) (auto simp: in_pair_def)

text \<open>
  Once the first loop has found nothing to do, a route of the second loop can only be
  one for a pair \<open>(a, a)\<close>, and then the assignment raises before it changes the dict.
\<close>

lemma route_after_idle:
  assumes w: "wf_conversions c" and cl: "settled c" and fr: "find_route c = Some (a, b, x_s)"
  shows "a = b \<and> (route_assign c a b x_s = (Raised ValueError, c) \<or>
                  route_assign c a b x_s = (Raised TypeError, c))"
proof -
  from fr have ab: "((a, b), None) \<in> set c" and f2: "find_c2 c a b = Some x_s"
    using find_route_SomeD by blast+
  from f2 obtain c2 r2 where c2: "(c2, r2) \<in> set c" "truthy r2" "in_pair a c2"
    and f3: "find_c3 c b c2 = Some x_s" using find_c2_SomeD by blast
  from f3 obtain c3 r3 where c3: "(c3, r3) \<in> set c" "c2 \<noteq> c3" "truthy r3" "in_pair b c3"
    and xs: "x_s = intersection c2 c3" "x_s \<noteq> []" using find_c3_SomeD by blast
  from w ab have abm: "map_of c (a, b) = Some None" by (rule wf_entry)
  then have abn: "dict_get c (a, b) = None" by (simp add: dict_get_def)
  obtain p2 q2 where p2: "c2 = (p2, q2)" by (cases c2)
  obtain p3 q3 where p3: "c3 = (p3, q3)" by (cases c3)
  have k2: "dict_get c (p2, q2) \<noteq> None \<and> dict_get c (q2, p2) \<noteq> None"
    using settled_reverse [OF w cl] c2 p2 by blast
  have k3: "dict_get c (p3, q3) \<noteq> None \<and> dict_get c (q3, p3) \<noteq> None"
    using settled_reverse [OF w cl] c3 p3 by blast
  have eq: "a = b"
  proof (rule ccontr)
    assume ne: "a \<noteq> b"
    from xs(2) obtain x where x: "x \<in> set x_s" by (cases x_s) auto
    with xs have x2: "in_pair x c2" and x3: "in_pair x c3"
      by (simp_all add: intersection_member)
    have "dict_get c (a, b) \<noteq> None"
    proof (cases "x = a")
      case True
      with x3 c3(4) ne have "c3 = (a, b) \<or> c3 = (b, a)" by (simp add: in_pair_two)
      with k3 p3 show ?thesis by auto
    next
      case xa: False
      show ?thesis
      proof (cases "x = b")
        case True
        with x2 c2(3) ne have "c2 = (a, b) \<or> c2 = (b, a)" by (simp add: in_pair_two)
        with k2 p2 show ?thesis by auto
      next
        case xb: False
        from c2(3) x2 xa have "c2 = (a, x) \<or> c2 = (x, a)" by (metis in_pair_two)
        with k2 p2 have kax: "dict_get c (a, x) \<noteq> None" by auto
        from c3(4) x3 xb have "c3 = (x, b) \<or> c3 = (b, x)" by (metis in_pair_two)
        with k3 p3 have kxb: "dict_get c (x, b) \<noteq> None" by auto
        from cl kax kxb ne show ?thesis by (rule settled_compose)
      qed
    qed
    with abn show False by simp
  qed
  have "route_assign c a b x_s = (Raised ValueError, c) \<or>
        route_assign c a b x_s = (Raised TypeError, c)"
  proof (cases "\<exists>x. x_s = [x]")
    case False
    then show ?thesis by (simp add: route_assign_not_single)
  next
    case True
    then obtain x where x: "x_s = [x]" by blast
    from c2(3) c3(4) eq have "a \<in> set (intersection c2 c3)" by (simp add: intersection_member)
    with xs(1) x have "a \<in> set [x]" by simp
    then have "x = a" by simp
    with abm eq x show ?thesis by (simp add: route_assign_unknown)
  qed
  with eq show ?thesis by simp
qed

subsection \<open>The call as a whole\<close>

lemma conversions_remaining_updated:
  assumes "single_pass c = (eo, c1, True)"
  shows "conversions_remaining c verify = (Returned RTrue, c1)"
proof -
  from single_pass_ok [of c] assms have "eo = None" by auto
  with assms show ?thesis by (simp add: conversions_remaining_def)
qed

lemma conversions_remaining_idle:
  assumes "settled c"
  shows "conversions_remaining c verify =
     (case find_route c of
        Some (a, b, x_s) \<Rightarrow> route_assign c a b x_s
      | None \<Rightarrow> (report c verify, c))"
proof -
  from assms have "single_pass c = (None, c, False)" by (simp add: single_pass_idle)
  then show ?thesis by (simp add: conversions_remaining_def)
qed

lemma single_pass_cases:
  obtains (updated) c1 where "single_pass c = (None, c1, True)" "fills c c1" "\<not> settled c"
  | (idle) "single_pass c = (None, c, False)" "settled c"
proof -
  obtain c1 u1 where s: "single_pass c = (None, c1, u1)" and f: "fills c c1"
    using single_pass_ok [of c] by blast
  show thesis
  proof (cases u1)
    case True
    have "\<not> settled c"
    proof
      assume "settled c"
      then have "single_pass c = (None, c, False)" by (simp add: single_pass_idle)
      with s True show False by simp
    qed
    with s f True updated show ?thesis by simp
  next
    case False
    with s have "c1 = c \<and> settled c" using single_pass_idle [of c None c1] by simp
    with s False idle show ?thesis by simp
  qed
qed

text \<open>What a call can do to a well-formed mapping.\<close>

lemma conversions_remaining_cases:
  assumes w: "wf_conversions c"
  obtains (updated) c1 where "single_pass c = (None, c1, True)" "fills c c1" "\<not> settled c"
      "wf_conversions c1" "conversions_remaining c verify = (Returned RTrue, c1)"
  | (raised) "settled c" "find_route c \<noteq> None"
      "conversions_remaining c verify = (Raised ValueError, c) \<or>
       conversions_remaining c verify = (Raised TypeError, c)"
  | (reported) "settled c" "find_route c = None"
      "conversions_remaining c verify = (report c verify, c)"
proof (cases c rule: single_pass_cases)
  case (updated c1)
  from w updated(1) have "wf_conversions c1" by (rule single_pass_wf)
  moreover from updated(1) have "conversions_remaining c verify = (Returned RTrue, c1)"
    by (rule conversions_remaining_updated)
  ultimately show ?thesis using updated that(1) by blast
next
  case idle
  show ?thesis
  proof (cases "find_route c")
    case None
    with idle(2) have "conversions_remaining c verify = (report c verify, c)"
      by (simp add: conversions_remaining_idle)
    with idle(2) None that(3) show ?thesis by blast
  next
    case (Some t)
    obtain a b x_s where t: "t = (a, b, x_s)" by (cases t)
    from Some t have fr: "find_route c = Some (a, b, x_s)" by simp
    from idle(2) fr have "conversions_remaining c verify = route_assign c a b x_s"
      by (simp add: conversions_remaining_idle)
    with route_after_idle [OF w idle(2) fr] Some idle(2) that(2) show ?thesis by auto
  qed
qed

lemma conversions_remaining_fills:
  assumes "wf_conversions c" "conversions_remaining c verify = (out, c')"
  shows "fills c c' \<and> wf_conversions c'"
proof (rule conversions_remaining_cases [OF assms(1), of verify])
  fix c1
  assume "conversions_remaining c verify = (Returned RTrue, c1)" "fills c c1" "wf_conversions c1"
  with assms show ?thesis by simp
next
  assume "conversions_remaining c verify = (Raised ValueError, c) \<or>
       conversions_remaining c verify = (Raised TypeError, c)"
  with assms show ?thesis by (auto simp: fills_refl)
next
  assume "conversions_remaining c verify = (report c verify, c)"
  with assms show ?thesis by (auto simp: fills_refl)
qed

text \<open>
  C10.  A call to \<^verbatim>\<open>conversions_remaining\<close> only fills in entries that are absent
  or map to \<^verbatim>\<open>None\<close>: every entry that maps to a known ratio, a ratio of zero
  included, maps to the same value afterwards, whatever the call returns or raises, and
  an entry that differs afterwards had no known ratio before and is present afterwards.
\<close>

theorem known_ratios_kept:
  assumes "wf_conversions c" and "conversions_remaining c verify = (out, c')"
  shows "(\<forall>k r. map_of c k = Some (Some r) \<longrightarrow> map_of c' k = Some (Some r)) \<and>
         (\<forall>k. map_of c' k \<noteq> map_of c k \<longrightarrow> dict_get c k = None \<and> map_of c' k \<noteq> None)"
proof -
  from assms have f: "fills c c'" by (simp add: conversions_remaining_fills)
  then have "\<forall>k r. map_of c k = Some (Some r) \<longrightarrow> map_of c' k = Some (Some r)"
    by (blast intro: fills_known)
  moreover from f have "\<forall>k. map_of c' k \<noteq> map_of c k \<longrightarrow> dict_get c k = None \<and> map_of c' k \<noteq> None"
    unfolding fills_def by blast
  ultimately show ?thesis by simp
qed

theorem known_ratios_kept_witness:
  "wf_conversions ex_zero \<and>
   conversions_remaining ex_zero False =
     (Returned RTrue,
      [((''WEENUS'', ''ETH''), Some 0), ((''ETH'', ''USD''), Some 1500),
       ((''WEENUS'', ''USD''), Some 0), ((''USD'', ''ETH''), Some (1 / 1500))]) \<and>
   map_of (snd (conversions_remaining ex_zero False)) (''WEENUS'', ''ETH'') = Some (Some 0) \<and>
   map_of (snd (conversions_remaining ex_zero False)) (''ETH'', ''USD'') = Some (Some 1500)"
proof -
  let ?c' = "[((''WEENUS'', ''ETH''), Some 0), ((''ETH'', ''USD''), Some 1500),
       ((''WEENUS'', ''USD''), Some 0), ((''USD'', ''ETH''), Some (1 / 1500))] :: conversions"
  have w: "wf_conversions ex_zero" by code_simp
  have ev: "conversions_remaining ex_zero False = (Returned RTrue, ?c')" by code_simp
  have k1: "map_of ex_zero (''WEENUS'', ''ETH'') = Some (Some 0)" by (simp add: ex_zero_def)
  have k2: "map_of ex_zero (''ETH'', ''USD'') = Some (Some 1500)" by (simp add: ex_zero_def)
  have kept: "\<forall>k r. map_of ex_zero k = Some (Some r) \<longrightarrow> map_of ?c' k = Some (Some r)"
    using known_ratios_kept [OF w ev] by (rule conjunct1)
  from kept k1 have "map_of ?c' (''WEENUS'', ''ETH'') = Some (Some 0)" by blast
  moreover from kept k2 have "map_of ?c' (''ETH'', ''USD'') = Some (Some 1500)" by blast
  ultimately show ?thesis using w ev by simp
qed

subsection \<open>The second loop\<close>

text \<open>
  A route for a pair of a symbol with itself: on the mapping below the first loop finds
  nothing to do, the second loop finds the pairs \<open>(A, X)\<close> and \<open>(X, A)\<close> for the
  unknown \<open>(A, A)\<close>, and \<^verbatim>\<open>x, = x_s\<close> raises.
\<close>

lemma self_pair_raises:
  "conversions_remaining ex_self False = (Raised ValueError, ex_self)"
  by code_simp

subsection \<open>The report\<close>

lemma commas_nonempty: "xs \<noteq> [] \<Longrightarrow> \<forall>x \<in> set xs. x \<noteq> [] \<Longrightarrow> commas xs \<noteq> []"
  by (induction xs rule: commas.induct) auto

lemma remains_empty: "\<forall>e \<in> set c. snd e \<noteq> None \<Longrightarrow> remains c = []"
proof -
  assume "\<forall>e \<in> set c. snd e \<noteq> None"
  then have "filter (\<lambda>(p, r). r = None) c = []" by (auto simp: filter_empty_conv)
  then show ?thesis by (simp add: remains_def)
qed

lemma remains_nonempty:
  assumes "(p, None) \<in> set c"
  shows "remains c \<noteq> []"
proof -
  let ?names = "sort (map (pair_name \<circ> fst) (filter (\<lambda>(p, r). r = None) c))"
  from assms have "(p, None) \<in> set (filter (\<lambda>(p, r). r = None) c)" by simp
  then have "pair_name p \<in> set ?names" by force
  then have "?names \<noteq> []" by (metis empty_iff list.set(1))
  moreover have "\<forall>x \<in> set ?names. x \<noteq> []" by (auto simp: pair_name_def)
  ultimately have "commas ?names \<noteq> []" by (rule commas_nonempty)
  then show ?thesis by (simp add: remains_def)
qed

lemma no_self_route:
  assumes "wf_conversions c" "settled c" "\<forall>a. ((a, a), None) \<notin> set c"
  shows "find_route c = None"
proof (rule ccontr)
  assume "find_route c \<noteq> None"
  then obtain a b x_s where fr: "find_route c = Some (a, b, x_s)" by (metis option.exhaust prod_cases3)
  from route_after_idle [OF assms(1,2) fr] have "a = b" by simp
  moreover from fr have "((a, b), None) \<in> set c" using find_route_SomeD by blast
  ultimately show False using assms(3) by simp
qed

text \<open>
  C6 says that a mapping without \<^verbatim>\<open>None\<close> makes the call return \<^verbatim>\<open>False\<close> and stay
  as it was.  A single known ratio has no \<^verbatim>\<open>None\<close>, yet the first loop adds its
  reverse and the call returns \<^verbatim>\<open>True\<close>.
\<close>

theorem no_unknown_still_updates:
  "conversions_remaining ex_one False =
     (Returned RTrue, [((''ETH'', ''USD''), Some 2), ((''USD'', ''ETH''), Some (1 / 2))])"
  by code_simp

text \<open>
  C6, amended.  For every mapping in which no pair maps to \<^verbatim>\<open>None\<close>: when the first
  loop has nothing left to deduce, \<^verbatim>\<open>conversions_remaining\<close> returns \<^verbatim>\<open>False\<close> and
  leaves the mapping exactly as it was, so running it again changes nothing; otherwise
  it returns \<^verbatim>\<open>True\<close>.
\<close>

theorem idempotent_when_settled:
  assumes "wf_conversions c" and "\<forall>e \<in> set c. snd e \<noteq> None"
  shows "(settled c \<longrightarrow> conversions_remaining c verify = (Returned RFalse, c)) \<and>
         (\<not> settled c \<longrightarrow> fst (conversions_remaining c verify) = Returned RTrue)"
proof (rule conversions_remaining_cases [OF assms(1), of verify])
  fix c1
  assume "\<not> settled c" "conversions_remaining c verify = (Returned RTrue, c1)"
  then show ?thesis by simp
next
  assume "find_route c \<noteq> None"
  moreover from assms(2) have "find_route c = None" by (rule find_route_None)
  ultimately show ?thesis by simp
next
  assume "settled c" "conversions_remaining c verify = (report c verify, c)"
  moreover from assms(2) have "report c verify = Returned RFalse"
    by (simp add: report_def remains_empty)
  ultimately show ?thesis by simp
qed

theorem idempotent_when_settled_witness:
  "wf_conversions ex_pair \<and> list_all (\<lambda>e. snd e \<noteq> None) ex_pair \<and> settled ex_pair \<and>
   conversions_remaining ex_pair False = (Returned RFalse, ex_pair) \<and>
   wf_conversions ex_one \<and> list_all (\<lambda>e. snd e \<noteq> None) ex_one \<and> \<not> settled ex_one \<and>
   fst (conversions_remaining ex_one False) = Returned RTrue"
proof -
  have w: "wf_conversions ex_pair" by code_simp
  have n: "\<forall>e \<in> set ex_pair. snd e \<noteq> None" by code_simp
  have "single_pass ex_pair = (None, ex_pair, False)" by code_simp
  then have cl: "settled ex_pair" by (simp add: single_pass_idle)
  have w1: "wf_conversions ex_one" by code_simp
  have n1: "\<forall>e \<in> set ex_one. snd e \<noteq> None" by code_simp
  have "single_pass ex_one \<noteq> (None, ex_one, False)" by code_simp
  then have cl1: "\<not> settled ex_one" by (simp add: single_pass_idle)
  from idempotent_when_settled [OF w n, of False] cl
  have r: "conversions_remaining ex_pair False = (Returned RFalse, ex_pair)" by simp
  from idempotent_when_settled [OF w1 n1, of False] cl1
  have r1: "fst (conversions_remaining ex_one False) = Returned RTrue" by simp
  from w n cl r w1 n1 cl1 r1 show ?thesis by (simp add: list_all_iff)
qed

lemma sublist_in_right: "sublist w ys \<Longrightarrow> sublist w (ps @ ys)"
  unfolding sublist_def by (metis append.assoc)

lemma sublist_in_left: "sublist w ys \<Longrightarrow> sublist w (ys @ ss)"
  unfolding sublist_def by (metis append.assoc)

lemma commas_sublist: "w \<in> set ws \<Longrightarrow> sublist w (commas ws)"
proof (induction ws rule: commas.induct)
  case 1
  then show ?case by simp
next
  case (2 x)
  then show ?case by simp
next
  case (3 x y)
  then have "w = x \<or> w = y" by auto
  then show ?case
  proof
    assume "w = x"
    then show ?thesis by (simp add: sublist_in_left)
  next
    assume "w = y"
    moreover have "sublist y ((x @ '' and '') @ y)" by (rule sublist_append_leftI)
    ultimately show ?thesis by simp
  qed
next
  case (4 x y z zs)
  show ?case
  proof (cases "w = x")
    case True
    then show ?thesis by (simp add: sublist_in_left)
  next
    case False
    with 4 have "sublist w (commas (y # z # zs))" by auto
    then have "sublist w ((x @ '', '') @ commas (y # z # zs))" by (rule sublist_in_right)
    then show ?thesis by simp
  qed
qed

lemma sublist_message:
  "sublist w u \<or> sublist w r \<Longrightarrow> sublist w (p @ u @ v @ r)"
proof -
  assume "sublist w u \<or> sublist w r"
  then have "sublist w (u @ v @ r)"
  proof
    assume "sublist w u"
    then show ?thesis by (rule sublist_in_left)
  next
    assume "sublist w r"
    then have "sublist w ((u @ v) @ r)" by (rule sublist_in_right)
    then show ?thesis by simp
  qed
  then show ?thesis by (rule sublist_in_right)
qed


lemma remains_explicit:
  "remains c = commas (sort (map (\<lambda>((a, b), r). a @ ''/'' @ b) (filter (\<lambda>(p, r). r = None) c)))"
proof -
  have eq: "pair_name \<circ> fst = (\<lambda>((a, b), r). a @ ''/'' @ b)"
    by (auto simp: fun_eq_iff pair_name_def)
  show ?thesis unfolding remains_def eq ..
qed

lemma resolved_explicit:
  "resolved c =
     commas (sort (map (\<lambda>((a, b), r). a @ ''/'' @ b) (filter (\<lambda>(p, r). \<exists>v. r = Some v \<and> 1 < v) c)))"
proof -
  have eq: "pair_name \<circ> fst = (\<lambda>((a, b), r). a @ ''/'' @ b)"
    by (auto simp: fun_eq_iff pair_name_def)
  have eq2: "(\<lambda>(p, r). case r of None \<Rightarrow> False | Some v \<Rightarrow> v \<noteq> 0 \<and> v > 1)
      = (\<lambda>(p :: pair, r). \<exists>v. r = Some v \<and> (1 :: rat) < v)"
    by (auto simp: fun_eq_iff split: option.splits)
  show ?thesis unfolding resolved_def eq eq2 ..
qed

lemma listed_sorted: "x \<in> set xs \<Longrightarrow> f x \<in> set (sort (map f xs))"
  by simp

lemma remains_names:
  assumes "((a, b), None) \<in> set c"
  shows "sublist (a @ ''/'' @ b) (remains c)"
proof -
  from assms have "((a, b), None) \<in> set (filter (\<lambda>(p, r). r = None) c)" by simp
  from listed_sorted [OF this, of "\<lambda>((a, b), r). a @ ''/'' @ b"]
  have "(\<lambda>((a, b), r). a @ ''/'' @ b) ((a, b), None :: ratio)
      \<in> set (sort (map (\<lambda>((a, b), r). a @ ''/'' @ b) (filter (\<lambda>(p, r). r = None) c)))" .
  then have "sublist ((\<lambda>((a, b), r). a @ ''/'' @ b) ((a, b), None :: ratio)) (remains c)"
    unfolding remains_explicit by (rule commas_sublist)
  then show ?thesis by (simp only: prod.case)
qed

lemma resolved_names:
  assumes "((a, b), Some v) \<in> set c" "1 < v"
  shows "sublist (a @ ''/'' @ b) (resolved c)"
proof -
  from assms have "((a, b), Some v) \<in> set (filter (\<lambda>(p, r). \<exists>v. r = Some v \<and> 1 < v) c)" by simp
  from listed_sorted [OF this, of "\<lambda>((a, b), r). a @ ''/'' @ b"]
  have "(\<lambda>((a, b), r). a @ ''/'' @ b) ((a, b), Some v)
      \<in> set (sort (map (\<lambda>((a, b), r). a @ ''/'' @ b)
                (filter (\<lambda>(p, r). \<exists>v. r = Some v \<and> 1 < v) c)))" .
  then have "sublist ((\<lambda>((a, b), r). a @ ''/'' @ b) ((a, b), Some v)) (resolved c)"
    unfolding resolved_explicit by (rule commas_sublist)
  then show ?thesis by (simp only: prod.case)
qed

lemma idle_report:
  assumes "settled c" "find_route c = None" "(p0, None) \<in> set c"
  shows "conversions_remaining c True = (Raised (RuntimeError (failure_msg c)), c)"
proof -
  from assms(1,2) have "conversions_remaining c True = (report c True, c)"
    by (simp add: conversions_remaining_idle)
  moreover from assms(3) have "remains c \<noteq> []" by (rule remains_nonempty)
  ultimately show ?thesis by (simp add: report_def)
qed

text \<open>
  C7 says that the message of the error names the still-unknown pairs and the resolved
  pairs.  On the mapping below the pairs A/B and B/A are resolved, at the ratio 1, and
  C/D is unknown; nothing more is deducible, and the message names C/D and no
  resolved pair: the source lists as resolved only the ratios above one
  (\<^verbatim>\<open>if r and r > 1\<close>).
\<close>

theorem unit_ratios_not_named:
  "conversions_remaining ex_unit True =
     (Raised (RuntimeError ''Failed to find ratio(s) for C/D via ''), ex_unit) \<and>
   map_of ex_unit (''A'', ''B'') = Some (Some 1) \<and>
   map_of ex_unit (''B'', ''A'') = Some (Some 1) \<and>
   \<not> sublist ''A/B'' ''Failed to find ratio(s) for C/D via '' \<and>
   \<not> sublist ''B/A'' ''Failed to find ratio(s) for C/D via ''"
  by code_simp

text \<open>
  C7, amended.  When no further ratio is deducible (the first loop finds nothing to do
  and the second loop finds no route) and unknown pairs remain,
  \<^verbatim>\<open>conversions_remaining\<close> with \<^verbatim>\<open>verify\<close> set raises \<^verbatim>\<open>RuntimeError\<close> and
  leaves the mapping as it was.  The message is "Failed to find ratio(s) for U via R",
  where U lists, sorted, the pairs that map to \<^verbatim>\<open>None\<close> and R lists, sorted, the
  pairs whose ratio is above one, and only those; so the message names every unknown
  pair and every resolved pair with a ratio above one.  The second loop finds no route
  whenever no pair of a symbol with itself is asked for.  Given exactly ETH/USD 1234.56,
  BTC/USD 23456.78 and DOGE/USD unknown, the caller's loop in strict mode ends at its
  third call, which raises naming DOGE/USD via BTC/ETH, BTC/USD and ETH/USD.
\<close>

theorem strict_mode_message:
  "(wf_conversions c \<and> settled c \<and> find_route c = None \<and> (\<exists>p. (p, None) \<in> set c) \<longrightarrow>
      (\<exists>msg. conversions_remaining c True = (Raised (RuntimeError msg), c) \<and>
         msg = ''Failed to find ratio(s) for ''
           @ commas (sort (map (\<lambda>((a, b), r). a @ ''/'' @ b) (filter (\<lambda>(p, r). r = None) c)))
           @ '' via ''
           @ commas (sort (map (\<lambda>((a, b), r). a @ ''/'' @ b)
               (filter (\<lambda>(p, r). \<exists>v. r = Some v \<and> 1 < v) c))) \<and>
         (\<forall>a b. ((a, b), None) \<in> set c \<longrightarrow> sublist (a @ ''/'' @ b) msg) \<and>
         (\<forall>a b v. ((a, b), Some v) \<in> set c \<longrightarrow> 1 < v \<longrightarrow> sublist (a @ ''/'' @ b) msg))) \<and>
   (wf_conversions c \<and> settled c \<and> (\<forall>a. ((a, a), None) \<notin> set c) \<longrightarrow> find_route c = None) \<and>
   resolve 3 True ex_doge =
     Some (Raised (RuntimeError
             ''Failed to find ratio(s) for DOGE/USD via BTC/ETH, BTC/USD and ETH/USD''),
           ex_doge_resolved)"
proof (intro conjI impI)
  assume h: "wf_conversions c \<and> settled c \<and> find_route c = None \<and> (\<exists>p. (p, None) \<in> set c)"
  then obtain p0 where "(p0, None) \<in> set c" by blast
  with h have r: "conversions_remaining c True = (Raised (RuntimeError (failure_msg c)), c)"
    by (simp add: idle_report)
  have m: "failure_msg c = ''Failed to find ratio(s) for ''
           @ commas (sort (map (\<lambda>((a, b), r). a @ ''/'' @ b) (filter (\<lambda>(p, r). r = None) c)))
           @ '' via ''
           @ commas (sort (map (\<lambda>((a, b), r). a @ ''/'' @ b)
               (filter (\<lambda>(p, r). \<exists>v. r = Some v \<and> 1 < v) c)))"
    unfolding failure_msg_def remains_explicit [symmetric] resolved_explicit [symmetric] ..
  have n1: "\<forall>a b. ((a, b), None) \<in> set c \<longrightarrow> sublist (a @ ''/'' @ b) (failure_msg c)"
    unfolding failure_msg_def by (intro allI impI sublist_message disjI1 remains_names)
  have n2: "\<forall>a b v. ((a, b), Some v) \<in> set c \<longrightarrow> 1 < v \<longrightarrow> sublist (a @ ''/'' @ b) (failure_msg c)"
    unfolding failure_msg_def by (intro allI impI sublist_message disjI2 resolved_names)
  from r m n1 n2
  show "\<exists>msg. conversions_remaining c True = (Raised (RuntimeError msg), c) \<and>
         msg = ''Failed to find ratio(s) for ''
           @ commas (sort (map (\<lambda>((a, b), r). a @ ''/'' @ b) (filter (\<lambda>(p, r). r = None) c)))
           @ '' via ''
           @ commas (sort (map (\<lambda>((a, b), r). a @ ''/'' @ b)
               (filter (\<lambda>(p, r). \<exists>v. r = Some v \<and> 1 < v) c))) \<and>
         (\<forall>a b. ((a, b), None) \<in> set c \<longrightarrow> sublist (a @ ''/'' @ b) msg) \<and>
         (\<forall>a b v. ((a, b), Some v) \<in> set c \<longrightarrow> 1 < v \<longrightarrow> sublist (a @ ''/'' @ b) msg)"
    by (intro exI [of _ "failure_msg c"] conjI)
next
  assume "wf_conversions c \<and> settled c \<and> (\<forall>a. ((a, a), None) \<notin> set c)"
  then show "find_route c = None" by (simp add: no_self_route)
next
  show "resolve 3 True ex_doge =
     Some (Raised (RuntimeError
             ''Failed to find ratio(s) for DOGE/USD via BTC/ETH, BTC/USD and ETH/USD''),
           ex_doge_resolved)"
    by code_simp
qed

theorem strict_mode_message_witness:
  "wf_conversions ex_doge_resolved \<and> settled ex_doge_resolved \<and>
   find_route ex_doge_resolved = None \<and>
   ((''DOGE'', ''USD''), None) \<in> set ex_doge_resolved \<and>
   ((''BTC'', ''ETH''), Some (1172839 / 61728)) \<in> set ex_doge_resolved \<and>
   conversions_remaining ex_doge_resolved True =
     (Raised (RuntimeError
        ''Failed to find ratio(s) for DOGE/USD via BTC/ETH, BTC/USD and ETH/USD''),
      ex_doge_resolved) \<and>
   sublist ''DOGE/USD'' ''Failed to find ratio(s) for DOGE/USD via BTC/ETH, BTC/USD and ETH/USD'' \<and>
   sublist ''BTC/ETH'' ''Failed to find ratio(s) for DOGE/USD via BTC/ETH, BTC/USD and ETH/USD''"
proof -
  let ?m = "''Failed to find ratio(s) for DOGE/USD via BTC/ETH, BTC/USD and ETH/USD''"
  have w: "wf_conversions ex_doge_resolved" by code_simp
  have "single_pass ex_doge_resolved = (None, ex_doge_resolved, False)" by code_simp
  then have cl: "settled ex_doge_resolved" by (simp add: single_pass_idle)
  have fr: "find_route ex_doge_resolved = None" by code_simp
  have u: "((''DOGE'', ''USD''), None) \<in> set ex_doge_resolved" by (simp add: ex_doge_resolved_def)
  have k: "((''BTC'', ''ETH''), Some (1172839 / 61728)) \<in> set ex_doge_resolved"
    by (simp add: ex_doge_resolved_def)
  have big: "(1 :: rat) < 1172839 / 61728" by simp
  have ev: "''Failed to find ratio(s) for ''
           @ commas (sort (map (\<lambda>((a, b), r). a @ ''/'' @ b)
               (filter (\<lambda>(p, r). r = None) ex_doge_resolved)))
           @ '' via ''
           @ commas (sort (map (\<lambda>((a, b), r). a @ ''/'' @ b)
               (filter (\<lambda>(p, r). \<exists>v. r = Some v \<and> 1 < v) ex_doge_resolved))) = ?m"
    unfolding remains_explicit [symmetric] resolved_explicit [symmetric] by code_simp
  from strict_mode_message [of ex_doge_resolved] w cl fr u
  obtain msg where r: "conversions_remaining ex_doge_resolved True = (Raised (RuntimeError msg), ex_doge_resolved)"
    and m: "msg = ''Failed to find ratio(s) for ''
           @ commas (sort (map (\<lambda>((a, b), r). a @ ''/'' @ b)
               (filter (\<lambda>(p, r). r = None) ex_doge_resolved)))
           @ '' via ''
           @ commas (sort (map (\<lambda>((a, b), r). a @ ''/'' @ b)
               (filter (\<lambda>(p, r). \<exists>v. r = Some v \<and> 1 < v) ex_doge_resolved)))"
    and n1: "\<forall>a b. ((a, b), None) \<in> set ex_doge_resolved \<longrightarrow> sublist (a @ ''/'' @ b) msg"
    and n2: "\<forall>a b v. ((a, b), Some v) \<in> set ex_doge_resolved \<longrightarrow> 1 < v \<longrightarrow> sublist (a @ ''/'' @ b) msg"
    by blast
  from m ev have me: "msg = ?m" by simp
  from n1 u have "sublist (''DOGE'' @ ''/'' @ ''USD'') msg" by blast
  with me have s1: "sublist ''DOGE/USD'' ?m" by simp
  from n2 k big have "sublist (''BTC'' @ ''/'' @ ''ETH'') msg" by blast
  with me have s2: "sublist ''BTC/ETH'' ?m" by simp
  from r me have r': "conversions_remaining ex_doge_resolved True = (Raised (RuntimeError ?m), ex_doge_resolved)"
    by simp
  from w cl fr u k r' s1 s2 show ?thesis by (intro conjI)
qed

subsection \<open>Invariants of the first loop\<close>

text \<open>
  A property of the mapping that the two assignments of the first loop keep is kept by
  the whole loop, by a call, and by the caller's loop.
\<close>

lemma compose_step_inv:
  assumes p: "P c" and ab: "map_of c (a, b) = Some (Some r)"
    and e: "\<forall>v2. snd e = Some v2 \<longrightarrow> map_of c (fst e) = Some (Some v2)"
    and comp: "\<And>c a b r b2 v2. P c \<Longrightarrow> map_of c (a, b) = Some (Some r) \<Longrightarrow>
        map_of c (b, b2) = Some (Some v2) \<Longrightarrow> a \<noteq> b2 \<Longrightarrow> dict_get c (a, b2) = None \<Longrightarrow>
        P (dict_set c (a, b2) (Some (r * v2)))"
  shows "P (fst (compose_step a b r e (c, u)))"
proof -
  obtain a2 b2 r2 where e': "e = ((a2, b2), r2)" by (metis surj_pair)
  show ?thesis
  proof (cases r2)
    case None
    with p show ?thesis by (simp add: e')
  next
    case (Some v2)
    show ?thesis
    proof (cases "b = a2 \<and> a \<noteq> b2 \<and> dict_get c (a, b2) = None")
      case True
      from e Some e' have "map_of c (a2, b2) = Some (Some v2)" by simp
      with True have "map_of c (b, b2) = Some (Some v2)" by simp
      with p ab have "P (dict_set c (a, b2) (Some (r * v2)))" using True by (intro comp) auto
      with True Some show ?thesis by (simp add: e')
    next
      case False
      with Some p show ?thesis by (auto simp: e')
    qed
  qed
qed

lemma fold_compose_inv:
  assumes p: "P c" and ab: "map_of c (a, b) = Some (Some r)"
    and xs: "\<forall>k v2. (k, Some v2) \<in> set xs \<longrightarrow> map_of c k = Some (Some v2)"
    and comp: "\<And>c a b r b2 v2. P c \<Longrightarrow> map_of c (a, b) = Some (Some r) \<Longrightarrow>
        map_of c (b, b2) = Some (Some v2) \<Longrightarrow> a \<noteq> b2 \<Longrightarrow> dict_get c (a, b2) = None \<Longrightarrow>
        P (dict_set c (a, b2) (Some (r * v2)))"
  shows "P (fst (fold (compose_step a b r) xs (c, u)))"
  using p ab xs
proof (induction xs arbitrary: c u)
  case Nil
  then show ?case by simp
next
  case (Cons e xs)
  obtain c1 u1 where s1: "compose_step a b r e (c, u) = (c1, u1)" by (metis surj_pair)
  have f: "fills c c1" using compose_step_fills [of c a b r e u] by (simp add: s1)
  have e: "\<forall>v2. snd e = Some v2 \<longrightarrow> map_of c (fst e) = Some (Some v2)"
    using Cons.prems(3) by (cases e) auto
  have "P (fst (compose_step a b r e (c, u)))"
    using Cons.prems(1,2) e by (rule compose_step_inv) (rule comp)
  then have p1: "P c1" by (simp add: s1)
  from f Cons.prems(2) have ab1: "map_of c1 (a, b) = Some (Some r)" by (rule fills_known)
  from f Cons.prems(3) have xs1: "\<forall>k v2. (k, Some v2) \<in> set xs \<longrightarrow> map_of c1 k = Some (Some v2)"
    by (auto intro: fills_known)
  from Cons.IH [OF p1 ab1 xs1, of u1] show ?case by (simp add: s1)
qed

lemma outer_step_inv:
  assumes w: "wf_conversions c" and p: "P c"
    and e: "\<forall>v. snd e = Some v \<longrightarrow> map_of c (fst e) = Some (Some v)"
    and inv: "\<And>c a b v. P c \<Longrightarrow> map_of c (a, b) = Some (Some v) \<Longrightarrow> v \<noteq> 0 \<Longrightarrow>
        dict_get c (b, a) = None \<Longrightarrow> P (dict_set c (b, a) (Some (1 / v)))"
    and comp: "\<And>c a b r b2 v2. P c \<Longrightarrow> map_of c (a, b) = Some (Some r) \<Longrightarrow>
        map_of c (b, b2) = Some (Some v2) \<Longrightarrow> a \<noteq> b2 \<Longrightarrow> dict_get c (a, b2) = None \<Longrightarrow>
        P (dict_set c (a, b2) (Some (r * v2)))"
    and o: "outer_step e (c, u) = Inr (c2, u2)"
  shows "P c2"
proof -
  obtain a b r where e': "e = ((a, b), r)" by (metis surj_pair)
  obtain c1 u1 where i: "invert_step ((a, b), r) (c, u) = Inr (c1, u1)" and f: "fills c c1"
    using invert_step_ok [of "((a, b), r)" c u] by blast
  have w1: "wf_conversions c1" using invert_step_wf [OF w i] .
  show ?thesis
  proof (cases r)
    case None
    with i have "c1 = c" by simp
    with o i None p show ?thesis by (simp add: e')
  next
    case (Some v)
    from e e' Some have ab: "map_of c (a, b) = Some (Some v)" by simp
    have p1: "P c1"
    proof (cases "v \<noteq> 0 \<and> dict_get c (b, a) = None")
      case True
      with i Some have "c1 = dict_set c (b, a) (Some (1 / v))" by (simp add: py_div_def)
      moreover from p ab True have "P (dict_set c (b, a) (Some (1 / v)))" by (intro inv) auto
      ultimately show ?thesis by simp
    next
      case False
      with i Some have "c1 = c" by (auto simp: py_div_def)
      with p show ?thesis by simp
    qed
    from f ab have ab1: "map_of c1 (a, b) = Some (Some v)" by (rule fills_known)
    from w1 have xs1: "\<forall>k v2. (k, Some v2) \<in> set c1 \<longrightarrow> map_of c1 k = Some (Some v2)"
      by (auto intro: wf_entry)
    have "P (fst (fold (compose_step a b v) c1 (c1, u1)))"
      using p1 ab1 xs1 by (rule fold_compose_inv) (rule comp)
    moreover from o i Some have "fold (compose_step a b v) c1 (c1, u1) = (c2, u2)" by (simp add: e')
    ultimately show ?thesis by simp
  qed
qed

lemma for_each_outer_inv:
  assumes w: "wf_conversions c" and p: "P c"
    and xs: "\<forall>k v. (k, Some v) \<in> set xs \<longrightarrow> map_of c k = Some (Some v)"
    and inv: "\<And>c a b v. P c \<Longrightarrow> map_of c (a, b) = Some (Some v) \<Longrightarrow> v \<noteq> 0 \<Longrightarrow>
        dict_get c (b, a) = None \<Longrightarrow> P (dict_set c (b, a) (Some (1 / v)))"
    and comp: "\<And>c a b r b2 v2. P c \<Longrightarrow> map_of c (a, b) = Some (Some r) \<Longrightarrow>
        map_of c (b, b2) = Some (Some v2) \<Longrightarrow> a \<noteq> b2 \<Longrightarrow> dict_get c (a, b2) = None \<Longrightarrow>
        P (dict_set c (a, b2) (Some (r * v2)))"
    and r: "for_each outer_step xs (c, u) = (eo, c', u')"
  shows "P c'"
  using w p xs r
proof (induction xs arbitrary: c u)
  case Nil
  then show ?case by simp
next
  case (Cons e xs)
  obtain c1 u1 where o: "outer_step e (c, u) = Inr (c1, u1)" and f: "fills c c1"
    using outer_step_ok [of e c u] by blast
  have w1: "wf_conversions c1" using outer_step_wf [OF Cons.prems(1) o] .
  have e: "\<forall>v. snd e = Some v \<longrightarrow> map_of c (fst e) = Some (Some v)"
    using Cons.prems(3) by (cases e) auto
  have p1: "P c1"
    using Cons.prems(1,2) e inv comp o by (rule outer_step_inv)
  from f Cons.prems(3) have xs1: "\<forall>k v. (k, Some v) \<in> set xs \<longrightarrow> map_of c1 k = Some (Some v)"
    by (auto intro: fills_known)
  from Cons.prems(4) o have "for_each outer_step xs (c1, u1) = (eo, c', u')" by simp
  with w1 p1 xs1 show ?case by (rule Cons.IH)
qed

lemma single_pass_inv:
  assumes w: "wf_conversions c" and p: "P c"
    and inv: "\<And>c a b v. P c \<Longrightarrow> map_of c (a, b) = Some (Some v) \<Longrightarrow> v \<noteq> 0 \<Longrightarrow>
        dict_get c (b, a) = None \<Longrightarrow> P (dict_set c (b, a) (Some (1 / v)))"
    and comp: "\<And>c a b r b2 v2. P c \<Longrightarrow> map_of c (a, b) = Some (Some r) \<Longrightarrow>
        map_of c (b, b2) = Some (Some v2) \<Longrightarrow> a \<noteq> b2 \<Longrightarrow> dict_get c (a, b2) = None \<Longrightarrow>
        P (dict_set c (a, b2) (Some (r * v2)))"
    and r: "single_pass c = (eo, c', u')"
  shows "P c'"
proof -
  from w have xs: "\<forall>k v. (k, Some v) \<in> set c \<longrightarrow> map_of c k = Some (Some v)"
    by (auto intro: wf_entry)
  from r have "for_each outer_step c (c, False) = (eo, c', u')" by (simp add: single_pass_def)
  with w p xs inv comp show ?thesis by (rule for_each_outer_inv)
qed


subsection \<open>A pass that reports an update has filled in a pair\<close>










subsection \<open>The caller's loop\<close>




subsection \<open>The caller's loop ends\<close>






subsection \<open>Ratios that are quotients of prices\<close>



lemma dict_get_map_of: "dict_get c k = Some v \<longleftrightarrow> map_of c k = Some (Some v)"
  by (auto simp: dict_get_def split: option.splits)

subsection \<open>Two ratios to a common pivot\<close>





subsection \<open>The reverse of a known ratio\<close>




subsection \<open>A ratio of zero\<close>

text \<open>The single-hop composition of two known ratios is reached within one pass.\<close>

lemma fold_compose_reaches:
  assumes "((b, x), Some v2) \<in> set xs" "a \<noteq> x"
  shows "dict_get (fst (fold (compose_step a b r) xs (c, u))) (a, x) \<noteq> None"
  using assms(1)
proof (induction xs arbitrary: c u)
  case Nil
  then show ?case by simp
next
  case (Cons e xs)
  obtain c1 u1 where s1: "compose_step a b r e (c, u) = (c1, u1)" by (metis surj_pair)
  show ?case
  proof (cases "e = ((b, x), Some v2)")
    case True
    with s1 assms(2) have "dict_get c1 (a, x) \<noteq> None"
      by (auto simp: dict_get_dict_set split: if_splits)
    moreover have "fills c1 (fst (fold (compose_step a b r) xs (c1, u1)))"
      by (rule fold_compose_fills)
    ultimately have "dict_get (fst (fold (compose_step a b r) xs (c1, u1))) (a, x) \<noteq> None"
      by (simp add: fills_get)
    then show ?thesis by (simp add: s1)
  next
    case False
    with Cons.prems have "((b, x), Some v2) \<in> set xs" by simp
    from Cons.IH [OF this, of c1 u1] show ?thesis by (simp add: s1)
  qed
qed

lemma outer_step_reaches:
  assumes bx: "map_of c (b, x) = Some (Some v2)" and ne: "a \<noteq> x"
    and o: "outer_step ((a, b), Some r) (c, u) = Inr (c2, u2)"
  shows "dict_get c2 (a, x) \<noteq> None"
proof -
  obtain c1 u1 where i: "invert_step ((a, b), Some r) (c, u) = Inr (c1, u1)" and f: "fills c c1"
    using invert_step_ok [of "((a, b), Some r)" c u] by blast
  from f bx have "map_of c1 (b, x) = Some (Some v2)" by (rule fills_known)
  then have "((b, x), Some v2) \<in> set c1" by (rule map_of_SomeD)
  then have "dict_get (fst (fold (compose_step a b r) c1 (c1, u1))) (a, x) \<noteq> None"
    using ne by (rule fold_compose_reaches)
  moreover from o i have "fold (compose_step a b r) c1 (c1, u1) = (c2, u2)" by simp
  ultimately show ?thesis by simp
qed

lemma for_each_outer_reaches:
  assumes "((a, b), Some r) \<in> set xs" and "map_of c (b, x) = Some (Some v2)" and ne: "a \<noteq> x"
    and "for_each outer_step xs (c, u) = (eo, c', u')"
  shows "dict_get c' (a, x) \<noteq> None"
  using assms(1,2,4)
proof (induction xs arbitrary: c u)
  case Nil
  then show ?case by simp
next
  case (Cons e xs)
  obtain c1 u1 where o: "outer_step e (c, u) = Inr (c1, u1)" and f: "fills c c1"
    using outer_step_ok [of e c u] by blast
  from Cons.prems(3) o have r: "for_each outer_step xs (c1, u1) = (eo, c', u')" by simp
  show ?case
  proof (cases "e = ((a, b), Some r)")
    case True
    with o have "outer_step ((a, b), Some r) (c, u) = Inr (c1, u1)" by simp
    with Cons.prems(2) ne have "dict_get c1 (a, x) \<noteq> None" by (rule outer_step_reaches)
    moreover have "fills c1 c'" using for_each_outer_ok [of xs c1 u1] r by auto
    ultimately show ?thesis by (simp add: fills_get)
  next
    case False
    with Cons.prems(1) have "((a, b), Some r) \<in> set xs" by simp
    moreover from f Cons.prems(2) have "map_of c1 (b, x) = Some (Some v2)" by (rule fills_known)
    ultimately show ?thesis using r by (rule Cons.IH)
  qed
qed

lemma single_pass_reaches:
  assumes "map_of c (a, b) = Some (Some r)" and "map_of c (b, x) = Some (Some v2)" and "a \<noteq> x"
    and "single_pass c = (eo, c', u')"
  shows "dict_get c' (a, x) \<noteq> None"
proof -
  from assms(1) have "((a, b), Some r) \<in> set c" by (rule map_of_SomeD)
  moreover from assms(4) have "for_each outer_step c (c, False) = (eo, c', u')"
    by (simp add: single_pass_def)
  ultimately show ?thesis using assms(2,3) for_each_outer_reaches [of a b r c c x v2 False eo c' u']
    by simp
qed

text \<open>A symbol that is worthless in every known ratio stays so.\<close>

lemma worthless_map_of:
  "worthless a c \<Longrightarrow> map_of c k = Some (Some v) \<Longrightarrow> in_pair a k \<Longrightarrow> v = 0"
proof -
  assume h: "worthless a c" and m: "map_of c k = Some (Some v)" and i: "in_pair a k"
  from m have "(k, Some v) \<in> set c" by (rule map_of_SomeD)
  with h i show ?thesis unfolding worthless_def list_all_iff by fastforce
qed

lemma single_pass_worthless:
  assumes w: "wf_conversions c" and h: "worthless s c" and r: "single_pass c = (eo, c', u')"
  shows "\<forall>k v. map_of c' k = Some (Some v) \<longrightarrow> in_pair s k \<longrightarrow> v = 0"
proof (rule single_pass_inv [where P = "\<lambda>c. \<forall>k v. map_of c k = Some (Some v) \<longrightarrow> in_pair s k \<longrightarrow> v = 0",
      OF w _ _ _ r])
  from h show "\<forall>k v. map_of c k = Some (Some v) \<longrightarrow> in_pair s k \<longrightarrow> v = 0"
    by (blast dest: worthless_map_of)
next
  fix c :: conversions and a b v
  assume q: "\<forall>k v. map_of c k = Some (Some v) \<longrightarrow> in_pair s k \<longrightarrow> v = 0"
    and ab: "map_of c (a, b) = Some (Some v)" and nz: "v \<noteq> 0"
  from q ab nz have "\<not> in_pair s (a, b)" by blast
  then have "\<not> in_pair s (b, a)" by (auto simp: in_pair_def)
  with q show "\<forall>k v'. map_of (dict_set c (b, a) (Some (1 / v))) k = Some (Some v') \<longrightarrow>
      in_pair s k \<longrightarrow> v' = 0"
    by (auto simp: map_of_dict_set)
next
  fix c :: conversions and a b r b2 v2
  assume q: "\<forall>k v. map_of c k = Some (Some v) \<longrightarrow> in_pair s k \<longrightarrow> v = 0"
    and ab: "map_of c (a, b) = Some (Some r)" and bb: "map_of c (b, b2) = Some (Some v2)"
  have "in_pair s (a, b2) \<longrightarrow> r * v2 = 0"
  proof
    assume "in_pair s (a, b2)"
    then have "in_pair s (a, b) \<or> in_pair s (b, b2)" by (auto simp: in_pair_def)
    with q ab bb have "r = 0 \<or> v2 = 0" by blast
    then show "r * v2 = 0" by auto
  qed
  with q show "\<forall>k v'. map_of (dict_set c (a, b2) (Some (r * v2))) k = Some (Some v') \<longrightarrow>
      in_pair s k \<longrightarrow> v' = 0"
    by (auto simp: map_of_dict_set)
qed

lemma report_not_zero_division: "report c verify \<noteq> Raised ZeroDivisionError"
  by (simp add: report_def)

text \<open>
  C4 says that a zero ratio \<open>(a, b)\<close> and a known ratio \<open>(b, c)\<close> with \<open>(a, c)\<close>
  unknown make a pass set \<open>(a, c)\<close> to 0.  On the mapping below \<open>(A, B)\<close> is 0,
  \<open>(B, C)\<close> is 5 and \<open>(A, C)\<close> is unknown; the pass comes to \<open>(C, A) = 2\<close> first and
  sets \<open>(A, C)\<close> to its reverse 1/2, so the composition finds \<open>(A, C)\<close> known and
  leaves it.
\<close>

theorem zero_not_propagated:
  "wf_conversions ex_race \<and>
   map_of ex_race (''A'', ''B'') = Some (Some 0) \<and>
   map_of ex_race (''B'', ''C'') = Some (Some 5) \<and>
   map_of ex_race (''A'', ''C'') = Some None \<and>
   conversions_remaining ex_race False =
     (Returned RTrue,
      [((''C'', ''A''), Some 2), ((''A'', ''B''), Some 0), ((''B'', ''C''), Some 5),
       ((''A'', ''C''), Some (1 / 2)), ((''C'', ''B''), Some 0), ((''B'', ''A''), Some 10)]) \<and>
   dict_get (snd (conversions_remaining ex_race False)) (''A'', ''C'') = Some (1 / 2)"
  by code_simp

text \<open>
  C4, amended.  A call of \<^verbatim>\<open>conversions_remaining\<close> never raises
  \<^verbatim>\<open>ZeroDivisionError\<close>, and the inversion step does nothing for a pair that maps
  to 0: it neither divides nor sets the reverse pair.  If \<open>(a, b)\<close> maps to 0 and
  \<open>(b, x)\<close> to a known ratio, with \<open>x\<close> other than \<open>a\<close> and \<open>(a, x)\<close> unknown, then the
  call returns \<^verbatim>\<open>True\<close> and \<open>(a, x)\<close> is known afterwards; it is 0 when every known
  ratio of a pair with \<open>a\<close> is zero (otherwise another deduction of the same pass can
  set it first).
\<close>

theorem zero_ratio_guard:
  "(wf_conversions c \<longrightarrow> fst (conversions_remaining c verify) \<noteq> Raised ZeroDivisionError) \<and>
   invert_step ((a, b), Some 0) (c0, u) = Inr (c0, u) \<and>
   (wf_conversions c \<and> map_of c (a, b) = Some (Some 0) \<and> map_of c (b, x) = Some (Some r2) \<and>
    a \<noteq> x \<and> dict_get c (a, x) = None \<longrightarrow>
      (\<exists>c1. conversions_remaining c verify = (Returned RTrue, c1) \<and>
            dict_get c1 (a, x) \<noteq> None \<and>
            (worthless a c \<longrightarrow> dict_get c1 (a, x) = Some 0)))"
proof (intro conjI impI)
  assume w: "wf_conversions c"
  show "fst (conversions_remaining c verify) \<noteq> Raised ZeroDivisionError"
  proof (rule conversions_remaining_cases [OF w, of verify])
    fix c1
    assume "conversions_remaining c verify = (Returned RTrue, c1)"
    then show ?thesis by simp
  next
    assume "conversions_remaining c verify = (Raised ValueError, c) \<or>
       conversions_remaining c verify = (Raised TypeError, c)"
    then show ?thesis by auto
  next
    assume "conversions_remaining c verify = (report c verify, c)"
    then show ?thesis by (simp add: report_not_zero_division)
  qed
next
  show "invert_step ((a, b), Some 0) (c0, u) = Inr (c0, u)" by simp
next
  assume h: "wf_conversions c \<and> map_of c (a, b) = Some (Some 0) \<and> map_of c (b, x) = Some (Some r2) \<and>
    a \<noteq> x \<and> dict_get c (a, x) = None"
  then have w: "wf_conversions c" and ab: "map_of c (a, b) = Some (Some 0)"
    and bx: "map_of c (b, x) = Some (Some r2)" and ne: "a \<noteq> x"
    and ax: "dict_get c (a, x) = None" by simp_all
  have ns: "\<not> settled c"
  proof
    assume "settled c"
    moreover from ab have "dict_get c (a, b) \<noteq> None" by (simp add: dict_get_def)
    moreover from bx have "dict_get c (b, x) \<noteq> None" by (simp add: dict_get_def)
    ultimately have "dict_get c (a, x) \<noteq> None" using ne by (rule settled_compose)
    with ax show False by simp
  qed
  show "\<exists>c1. conversions_remaining c verify = (Returned RTrue, c1) \<and>
            dict_get c1 (a, x) \<noteq> None \<and>
            (worthless a c \<longrightarrow> dict_get c1 (a, x) = Some 0)"
  proof (rule conversions_remaining_cases [OF w, of verify])
    fix c1
    assume s: "single_pass c = (None, c1, True)"
      and r: "conversions_remaining c verify = (Returned RTrue, c1)"
    from ab bx ne s have k: "dict_get c1 (a, x) \<noteq> None" by (rule single_pass_reaches)
    have "worthless a c \<longrightarrow> dict_get c1 (a, x) = Some 0"
    proof
      assume "worthless a c"
      with w have q: "\<forall>k v. map_of c1 k = Some (Some v) \<longrightarrow> in_pair a k \<longrightarrow> v = 0"
        using s by (rule single_pass_worthless)
      from k obtain v where v: "dict_get c1 (a, x) = Some v" by auto
      then have "map_of c1 (a, x) = Some (Some v)" by (simp add: dict_get_map_of)
      moreover have "in_pair a (a, x)" by (simp add: in_pair_def)
      ultimately have "v = 0" using q by blast
      with v show "dict_get c1 (a, x) = Some 0" by simp
    qed
    with r k show ?thesis by blast
  next
    assume "settled c"
    with ns show ?thesis by simp
  next
    assume "settled c"
    with ns show ?thesis by simp
  qed
qed

theorem zero_ratio_guard_witness:
  "wf_conversions ex_zero \<and>
   map_of ex_zero (''WEENUS'', ''ETH'') = Some (Some 0) \<and>
   map_of ex_zero (''ETH'', ''USD'') = Some (Some 1500) \<and>
   ''WEENUS'' \<noteq> ''USD'' \<and> dict_get ex_zero (''WEENUS'', ''USD'') = None \<and>
   worthless ''WEENUS'' ex_zero \<and>
   fst (conversions_remaining ex_zero False) = Returned RTrue \<and>
   fst (conversions_remaining ex_zero False) \<noteq> Raised ZeroDivisionError \<and>
   dict_get (snd (conversions_remaining ex_zero False)) (''WEENUS'', ''USD'') = Some 0 \<and>
   dict_get (snd (conversions_remaining ex_zero False)) (''ETH'', ''WEENUS'') = None"
proof -
  have w: "wf_conversions ex_zero" by code_simp
  have ab: "map_of ex_zero (''WEENUS'', ''ETH'') = Some (Some 0)" by (simp add: ex_zero_def)
  have bx: "map_of ex_zero (''ETH'', ''USD'') = Some (Some 1500)" by (simp add: ex_zero_def)
  have ne: "''WEENUS'' \<noteq> ''USD''" by simp
  have ax: "dict_get ex_zero (''WEENUS'', ''USD'') = None" by (simp add: ex_zero_def dict_get_def)
  have wl: "worthless ''WEENUS'' ex_zero" by code_simp
  have rev: "dict_get (snd (conversions_remaining ex_zero False)) (''ETH'', ''WEENUS'') = None"
    by code_simp
  note t = zero_ratio_guard [of ex_zero False "''WEENUS''" "''ETH''" ex_zero False "''USD''" 1500]
  from t w have nz: "fst (conversions_remaining ex_zero False) \<noteq> Raised ZeroDivisionError" by simp
  from t w ab bx ne ax wl
  obtain c1 where r: "conversions_remaining ex_zero False = (Returned RTrue, c1)"
    and v: "dict_get c1 (''WEENUS'', ''USD'') = Some 0" by auto
  from r have tr: "fst (conversions_remaining ex_zero False) = Returned RTrue" by simp
  from r v have z: "dict_get (snd (conversions_remaining ex_zero False)) (''WEENUS'', ''USD'') = Some 0"
    by simp
  from w ab bx ne ax wl tr nz z rev show ?thesis by (intro conjI)
qed

section \<open>Properties of \<^verbatim>\<open>Invoice.__iter__\<close>\<close>

subsection \<open>Amounts that are not negative\<close>

lemma round_half_even_nonneg: "0 \<le> q \<Longrightarrow> 0 \<le> round_half_even q"
  by (auto simp: round_half_even_def Let_def)

lemma py_round_nonneg:
  assumes "0 \<le> x"
  shows "0 \<le> py_round x d"
proof -
  have s: "(0 :: rat) < 10 ^ nat \<bar>d\<bar>" by simp
  from assms s have "0 \<le> x * 10 ^ nat \<bar>d\<bar>" "0 \<le> x / 10 ^ nat \<bar>d\<bar>" by simp_all
  then have r: "0 \<le> round_half_even (x * 10 ^ nat \<bar>d\<bar>)" "0 \<le> round_half_even (x / 10 ^ nat \<bar>d\<bar>)"
    by (simp_all add: round_half_even_nonneg)
  from r(1) have a: "0 \<le> rat_of_int (round_half_even (x * 10 ^ nat \<bar>d\<bar>)) / 10 ^ nat \<bar>d\<bar>"
    by (intro divide_nonneg_nonneg) simp_all
  from r(2) have b: "0 \<le> rat_of_int (round_half_even (x / 10 ^ nat \<bar>d\<bar>)) * 10 ^ nat \<bar>d\<bar>"
    by (intro mult_nonneg_nonneg) simp_all
  show ?thesis
  proof (cases "0 < d")
    case True
    then have "py_round x d = rat_of_int (round_half_even (x * 10 ^ nat \<bar>d\<bar>)) / 10 ^ nat \<bar>d\<bar>"
      unfolding py_round_def Let_def by (simp only: if_True)
    with a show ?thesis by (simp only:)
  next
    case False
    then have "py_round x d = rat_of_int (round_half_even (x / 10 ^ nat \<bar>d\<bar>)) * 10 ^ nat \<bar>d\<bar>"
      unfolding py_round_def Let_def by (simp only: if_False)
    with b show ?thesis by (simp only:)
  qed
qed

lemma net_nonneg:
  assumes "0 \<le> units line" "0 \<le> price line" "\<forall>t. tax line = Some t \<longrightarrow> 0 \<le> t"
  shows "0 \<le> fst (net fmt line) \<and> 0 \<le> fst (snd (net fmt line))"
proof -
  let ?a = "units line * price line"
  from assms(1,2) have a: "0 \<le> ?a" by simp
  show ?thesis
  proof (cases "tax line")
    case None
    with a show ?thesis by (simp add: net_def)
  next
    case (Some t)
    with assms(3) have t: "0 \<le> t" by simp
    from a t have at: "0 \<le> ?a * t" by simp
    have "1 < t \<longrightarrow> ?a / t \<le> ?a"
    proof
      assume "1 < t"
      with a have "?a * 1 \<le> ?a * t" by (intro mult_left_mono) simp_all
      with \<open>1 < t\<close> show "?a / t \<le> ?a" by (simp add: divide_le_eq)
    qed
    with Some a at show ?thesis by (auto simp: net_def Let_def)
  qed
qed

lemma contribution_nonneg:
  assumes "0 \<le> x" "\<forall>k v. map_of conv k = Some (Some v) \<longrightarrow> 0 \<le> v"
  shows "0 \<le> contribution conv s c x"
proof (cases "dict_get conv (s, c)")
  case None
  with assms(1) show ?thesis by (simp add: contribution_def)
next
  case (Some v)
  then have "map_of conv (s, c) = Some (Some v)" by (simp add: dict_get_map_of)
  with assms(2) have "0 \<le> v" by blast
  with assms(1) Some show ?thesis by (simp add: contribution_def)
qed

subsection \<open>One line\<close>

lemma add_line_adds:
  assumes "add_line conv s x t c (tot, taxs) = Inr (tot', taxs')"
  shows "tot' = tot(c := tot c + contribution conv s c x) \<and>
         taxs' = taxs(c := taxs c + contribution conv s c t) \<and>
         (s \<noteq> c \<longrightarrow> (\<exists>ratio. map_of conv (s, c) = Some (Some ratio)))"
proof (cases "s = c")
  case True
  with assms show ?thesis by (simp add: add_line_def contribution_def)
next
  case False
  with assms obtain ratio where m: "map_of conv (s, c) = Some (Some ratio)"
    by (auto simp: add_line_def dict_item_def split: option.splits sum.splits)
  then have "dict_get conv (s, c) = Some ratio" by (simp add: dict_get_map_of)
  with assms False m show ?thesis
    by (auto simp: add_line_def dict_item_def contribution_def)
qed

lemma for_each_add_line:
  assumes "for_each (add_line conv s x t) cs (tot, taxs) = (None, (tot', taxs'))" "distinct cs"
  shows "(\<forall>c \<in> set cs. tot' c = tot c + contribution conv s c x \<and>
            taxs' c = taxs c + contribution conv s c t \<and>
            (s \<noteq> c \<longrightarrow> (\<exists>ratio. map_of conv (s, c) = Some (Some ratio)))) \<and>
         (\<forall>c. c \<notin> set cs \<longrightarrow> tot' c = tot c \<and> taxs' c = taxs c)"
  using assms
proof (induction cs arbitrary: tot taxs)
  case Nil
  then show ?case by simp
next
  case (Cons c cs)
  from Cons.prems(1) obtain tot1 taxs1
    where a: "add_line conv s x t c (tot, taxs) = Inr (tot1, taxs1)"
      and r: "for_each (add_line conv s x t) cs (tot1, taxs1) = (None, (tot', taxs'))"
    by (auto split: sum.splits)
  from add_line_adds [OF a] have t1: "tot1 = tot(c := tot c + contribution conv s c x)"
    and x1: "taxs1 = taxs(c := taxs c + contribution conv s c t)"
    and k1: "s \<noteq> c \<longrightarrow> (\<exists>ratio. map_of conv (s, c) = Some (Some ratio))" by simp_all
  from Cons.prems(2) have d: "distinct cs" and n: "c \<notin> set cs" by simp_all
  from Cons.IH [OF r d]
  have ih1: "\<forall>c' \<in> set cs. tot' c' = tot1 c' + contribution conv s c' x \<and>
            taxs' c' = taxs1 c' + contribution conv s c' t \<and>
            (s \<noteq> c' \<longrightarrow> (\<exists>ratio. map_of conv (s, c') = Some (Some ratio)))"
    and ih2: "\<forall>c'. c' \<notin> set cs \<longrightarrow> tot' c' = tot1 c' \<and> taxs' c' = taxs1 c'" by simp_all
  have p1: "\<forall>c' \<in> set (c # cs). tot' c' = tot c' + contribution conv s c' x \<and>
            taxs' c' = taxs c' + contribution conv s c' t \<and>
            (s \<noteq> c' \<longrightarrow> (\<exists>ratio. map_of conv (s, c') = Some (Some ratio)))"
  proof
    fix c' assume m: "c' \<in> set (c # cs)"
    show "tot' c' = tot c' + contribution conv s c' x \<and>
            taxs' c' = taxs c' + contribution conv s c' t \<and>
            (s \<noteq> c' \<longrightarrow> (\<exists>ratio. map_of conv (s, c') = Some (Some ratio)))"
    proof (cases "c' = c")
      case True
      with ih2 n t1 x1 k1 show ?thesis by simp
    next
      case False
      with m have "c' \<in> set cs" by simp
      with ih1 False t1 x1 show ?thesis by simp
    qed
  qed
  have p2: "\<forall>c'. c' \<notin> set (c # cs) \<longrightarrow> tot' c' = tot c' \<and> taxs' c' = taxs c'"
    using ih2 t1 x1 by simp
  from p1 p2 show ?case ..
qed

lemma line_row_adds:
  assumes r: "line_row fmt tokeninfo invoice_currency invo (i, line) (tot, taxs) = Inr (r, (tot', taxs'))"
    and d: "distinct (currencies invo)"
  shows "row_totals r = map tot' (sort (currencies invo)) \<and>
         row_tax_totals r = map taxs' (sort (currencies invo)) \<and>
         row_amount r = py_round (fst (net fmt line)) (row_decimals r) \<and>
         row_taxes r = py_round (fst (snd (net fmt line))) (row_decimals r) \<and>
         row_i r = i \<and>
         (\<forall>c \<in> set (currencies invo).
            tot' c = tot c + contribution (inv_conversions invo) (row_symbol r) c (row_amount r) \<and>
            taxs' c = taxs c + contribution (inv_conversions invo) (row_symbol r) c (row_taxes r) \<and>
            (row_symbol r \<noteq> c \<longrightarrow>
               (\<exists>ratio. map_of (inv_conversions invo) (row_symbol r, c) = Some (Some ratio))))"
proof -
  obtain amount taxes taxinf where n: "net fmt line = (amount, taxes, taxinf)" by (metis prod_cases3)
  let ?cur = "case currency line of None \<Rightarrow> invoice_currency
               | Some cur \<Rightarrow> if cur = [] then invoice_currency else cur"
  from r n obtain curr where ti: "tokeninfo ?cur = Inr curr"
    by (auto simp: line_row_def Let_def split: sum.splits)
  let ?dec = "case decimals line of None \<Rightarrow> ti_decimals curr div 3 | Some d \<Rightarrow> d"
  let ?amt = "py_round amount ?dec"
  let ?tx = "py_round taxes ?dec"
  from r n ti have fe: "for_each (add_line (inv_conversions invo) (ti_symbol curr) ?amt ?tx)
      (currencies invo) (tot, taxs) = (None, (tot', taxs'))"
    by (auto simp: line_row_def Let_def split: option.splits prod.splits)
  from r n ti fe have rr: "row_totals r = map tot' (sort (currencies invo))"
    "row_tax_totals r = map taxs' (sort (currencies invo))"
    "row_amount r = ?amt" "row_taxes r = ?tx" "row_i r = i" "row_symbol r = ti_symbol curr"
    "row_decimals r = ?dec"
    by (auto simp: line_row_def Let_def split: option.splits prod.splits)
  from for_each_add_line [OF fe d] rr n show ?thesis by simp
qed

end
